theory Spec2Isabelle
  imports Main
begin

section \<open>Retrying with backoff: \<^verbatim>\<open>src/utils/retry.js\<close>\<close>

text \<open>
  The module exports two wrappers, \<^verbatim>\<open>retryWithBackoff(obs, options)\<close> and
  \<^verbatim>\<open>retryableFuncWithBackoff(fn, options)\<close>. Each call of a wrapper creates one closure
  holding the variable \<^verbatim>\<open>retryCount\<close> and, when \<^verbatim>\<open>resetDelay > 0\<close>, one debounced
  function that sets \<^verbatim>\<open>retryCount\<close> back to 0. The code that runs afterwards is three
  callbacks: the \<^verbatim>\<open>catch\<close> handler (on an error of the source), the \<^verbatim>\<open>mergeMap\<close>
  callback (when the backoff timer fires) and the debounced reset (when its timeout fires).

  The closure is modelled as a record that every callback takes and returns. Time is a
  natural number of milliseconds. What the callers and the hooks see is recorded, in
  order, in the field \<open>effects\<close>.

  The closure belongs to the wrapper: every subscription to the observable that
  \<^verbatim>\<open>retryWithBackoff\<close> returned, and every call of the function that
  \<^verbatim>\<open>retryableFuncWithBackoff\<close> returned, runs its callbacks on the same record. Two
  views of it are given below: an invocation that is alone on its wrapper, run from its
  first attempt to its end, and the callbacks of any number of invocations of one
  wrapper, one after the other in the order in which the event loop runs them.
\<close>

subsection \<open>Options, closure and effects\<close>

text \<open>
  The \<^verbatim>\<open>options\<close> object. The optional functions \<^verbatim>\<open>shouldRetry\<close> and
  \<^verbatim>\<open>errorSelector\<close> are options of functions. \<^verbatim>\<open>onRetry\<close> returns nothing: the field
  says whether a hook is configured, and a call of the hook is recorded as the effect
  \<open>Notified error count\<close>.
\<close>

record 'e options =
  retryDelay :: nat
  totalRetry :: nat
  resetDelay :: int
  shouldRetry :: "('e \<Rightarrow> bool) option"
  errorSelector :: "('e \<Rightarrow> nat \<Rightarrow> 'e) option"
  onRetry :: bool

datatype ('e, 'v) effect =
    is_Subscribed: Subscribed
  | is_Emitted: Emitted 'v
  | is_Completed: Completed
  | is_Thrown: Thrown 'e
  | is_Notified: Notified 'e nat
  | is_Scheduled: Scheduled nat
  | is_Touched: Touched
  | is_CounterReset: CounterReset

text \<open>
  \<open>Subscribed\<close>: the source is subscribed (\<^verbatim>\<open>obs\<close>, \<^verbatim>\<open>source\<close>) or \<^verbatim>\<open>fn(...args)\<close> is
  called: an attempt starts. \<open>Emitted v\<close>, \<open>Completed\<close>, \<open>Thrown e\<close>: what reaches the
  caller. \<open>Notified e n\<close>: the call \<^verbatim>\<open>onRetry(e, n)\<close>. \<open>Scheduled d\<close>: the backoff timer
  \<^verbatim>\<open>timer(d)\<close> is created. \<open>Touched\<close>: the debounced function is called.
  \<open>CounterReset\<close>: the debounced callback \<^verbatim>\<open>() => retryCount = 0\<close> runs.
\<close>

record ('e, 'v) closure =
  retryCount :: nat
  debounceTimer :: "nat option"
  now :: nat
  effects :: "('e, 'v) effect list"

text \<open>
  \<open>debounceTimer\<close> is the pending timeout of \<^verbatim>\<open>debounce\<close> (its local variable
  \<^verbatim>\<open>timer\<close>), as the time at which it is due; \<open>None\<close> when no timeout is pending.
  \<open>created t\<close> is the closure as lines 43-47 and 94-98 leave it at time \<open>t\<close>.
\<close>

definition created :: "nat \<Rightarrow> ('e, 'v) closure" where
  "created t = \<lparr>retryCount = 0, debounceTimer = None, now = t, effects = []\<rparr>"

definition emit :: "('e, 'v) effect \<Rightarrow> ('e, 'v) closure \<Rightarrow> ('e, 'v) closure" where
  "emit x w = w\<lparr>effects := effects w @ [x]\<rparr>"

definition tally :: "(('e, 'v) effect \<Rightarrow> bool) \<Rightarrow> ('e, 'v) closure \<Rightarrow> nat" where
  "tally P w = length (filter P (effects w))"

subsection \<open>\<^verbatim>\<open>debounce\<close> (lines 12-20) and the passing of time\<close>

text \<open>
  A call of the function that \<^verbatim>\<open>debounce(fn, delay)\<close> returns: a pending timeout is
  cleared and a new one is set, due \<open>delay\<close> from now.
\<close>

definition debounce :: "nat \<Rightarrow> ('e, 'v) closure \<Rightarrow> ('e, 'v) closure" where
  "debounce delay w = emit Touched (w\<lparr>debounceTimer := Some (now w + delay)\<rparr>)"

text \<open>
  \<open>elapse d\<close>: \<open>d\<close> milliseconds pass in which nothing but the debounced timeout can
  run. If it is due by then, its callback \<^verbatim>\<open>() => retryCount = 0\<close> runs (a timeout due
  at the very instant of a later event runs before it).
\<close>

definition elapse :: "nat \<Rightarrow> ('e, 'v) closure \<Rightarrow> ('e, 'v) closure" where
  "elapse d w =
     (case debounceTimer w of
        None \<Rightarrow> w\<lparr>now := now w + d\<rparr>
      | Some due \<Rightarrow>
          if due \<le> now w + d
          then emit CounterReset (w\<lparr>retryCount := 0, debounceTimer := None, now := now w + d\<rparr>)
          else w\<lparr>now := now w + d\<rparr>)"

subsection \<open>The wrapped operation\<close>

text \<open>
  One attempt of the wrapped operation (one subscription to \<^verbatim>\<open>obs\<close>, or the observable
  of one call \<^verbatim>\<open>fn(...args)\<close>): the values it emits, the time it lasts, and how it ends.
  The operation is the list of its successive attempts. Values pass through \<^verbatim>\<open>catch\<close>
  unchanged and reach neither the counter nor a timer, so only the time at which the
  attempt ends is kept: the values are recorded when the attempt starts.

  \<open>source_runs\<close> is an attempt of an invocation that is alone on its wrapper: while
  the attempt is under way nothing runs on the closure but the debounced timeout. The
  callbacks of another invocation of the same wrapper, where there is one, are the
  subject of \<open>retryWithBackoff_events\<close> below.
\<close>

datatype 'e ending = Fails 'e | Succeeds

record ('e, 'v) attempt =
  emits :: "'v list"
  lasts :: nat
  ending :: "'e ending"

definition source_runs :: "('e, 'v) attempt \<Rightarrow> ('e, 'v) closure \<Rightarrow> ('e, 'v) closure" where
  "source_runs a w =
     elapse (lasts a) (w\<lparr>effects := effects w @ Subscribed # map Emitted (emits a)\<rparr>)"

text \<open>Where an invocation stands.\<close>

datatype 'e phase = Active | Waiting nat | Finished | Failed 'e

subsection \<open>The \<^verbatim>\<open>catch\<close> handlers\<close>

text \<open>Line 50 and line 102: \<^verbatim>\<open>!shouldRetry || shouldRetry(error)\<close>.\<close>

definition wantRetry :: "'e options \<Rightarrow> 'e \<Rightarrow> bool" where
  "wantRetry options error = (case shouldRetry options of None \<Rightarrow> True | Some f \<Rightarrow> f error)"

text \<open>Lines 52-56 and 104-108: the error that is thrown on giving up.\<close>

definition thrown :: "'e options \<Rightarrow> 'e \<Rightarrow> nat \<Rightarrow> 'e" where
  "thrown options error count =
     (case errorSelector options of Some sel \<Rightarrow> sel error count | None \<Rightarrow> error)"

datatype 'e caught = Rethrown 'e | Delayed nat

text \<open>
  Lines 49-63. \<^verbatim>\<open>getBackedoffDelay\<close> is imported from \<^verbatim>\<open>./backoff\<close> and is a parameter
  here. In \<^verbatim>\<open>!wantRetry || retryCount++ >= totalRetry\<close> the increment is evaluated only
  when \<^verbatim>\<open>wantRetry\<close> holds, and the comparison sees the value before the increment.
\<close>

definition retryWithBackoff_catch ::
  "(nat \<Rightarrow> nat \<Rightarrow> nat) \<Rightarrow> 'e options \<Rightarrow> 'e \<Rightarrow> ('e, 'v) closure \<Rightarrow> 'e caught \<times> ('e, 'v) closure" where
  "retryWithBackoff_catch getBackedoffDelay options error w =
     (if \<not> wantRetry options error
      then (Rethrown (thrown options error (retryCount w)), w)
      else
        let w1 = w\<lparr>retryCount := retryCount w + 1\<rparr> in
        if retryCount w \<ge> totalRetry options
        then (Rethrown (thrown options error (retryCount w1)), w1)
        else
          let w2 = (if onRetry options then emit (Notified error (retryCount w1)) w1 else w1);
              fuzzedDelay = getBackedoffDelay (retryDelay options) (retryCount w2)
          in (Delayed fuzzedDelay, emit (Scheduled fuzzedDelay) w2))"

text \<open>Lines 101-115: the same handler, written again in \<^verbatim>\<open>doRetry\<close>.\<close>

definition retryableFuncWithBackoff_catch ::
  "(nat \<Rightarrow> nat \<Rightarrow> nat) \<Rightarrow> 'e options \<Rightarrow> 'e \<Rightarrow> ('e, 'v) closure \<Rightarrow> 'e caught \<times> ('e, 'v) closure" where
  "retryableFuncWithBackoff_catch getBackedoffDelay options error w =
     (if \<not> wantRetry options error
      then (Rethrown (thrown options error (retryCount w)), w)
      else
        let w1 = w\<lparr>retryCount := retryCount w + 1\<rparr> in
        if retryCount w \<ge> totalRetry options
        then (Rethrown (thrown options error (retryCount w1)), w1)
        else
          let w2 = (if onRetry options then emit (Notified error (retryCount w1)) w1 else w1);
              fuzzedDelay = getBackedoffDelay (retryDelay options) (retryCount w2)
          in (Delayed fuzzedDelay, emit (Scheduled fuzzedDelay) w2))"

subsection \<open>The \<^verbatim>\<open>mergeMap\<close> callbacks\<close>

text \<open>
  Lines 64-65 and 116-117: the backoff timer fires after \<open>d\<close> milliseconds, and the
  callback calls \<^verbatim>\<open>debounceRetryCount\<close> when it is defined, that is when
  \<^verbatim>\<open>resetDelay > 0\<close> held at lines 45 and 96. What the callback returns (line 66,
  line 118) is the next attempt, started by the functions below.
\<close>

definition retryWithBackoff_timer :: "'e options \<Rightarrow> nat \<Rightarrow> ('e, 'v) closure \<Rightarrow> ('e, 'v) closure" where
  "retryWithBackoff_timer options d w =
     (let w1 = elapse d w
      in if 0 < resetDelay options then debounce (nat (resetDelay options)) w1 else w1)"

definition retryableFuncWithBackoff_timer :: "'e options \<Rightarrow> nat \<Rightarrow> ('e, 'v) closure \<Rightarrow> ('e, 'v) closure" where
  "retryableFuncWithBackoff_timer options d w =
     (let w1 = elapse d w
      in if 0 < resetDelay options then debounce (nat (resetDelay options)) w1 else w1)"

subsection \<open>One attempt, and a whole invocation\<close>

text \<open>
  One attempt under \<^verbatim>\<open>catch\<close>: the source runs to its end; a completion is passed on,
  an error goes to the handler, whose thrown error reaches the caller.
\<close>

definition retryWithBackoff_attempt ::
  "(nat \<Rightarrow> nat \<Rightarrow> nat) \<Rightarrow> 'e options \<Rightarrow> ('e, 'v) attempt \<Rightarrow> ('e, 'v) closure \<Rightarrow> 'e phase \<times> ('e, 'v) closure" where
  "retryWithBackoff_attempt getBackedoffDelay options a w =
     (let w1 = source_runs a w in
      case ending a of
        Succeeds \<Rightarrow> (Finished, emit Completed w1)
      | Fails error \<Rightarrow>
          (case retryWithBackoff_catch getBackedoffDelay options error w1 of
             (Rethrown e, w2) \<Rightarrow> (Failed e, emit (Thrown e) w2)
           | (Delayed d, w2) \<Rightarrow> (Waiting d, w2)))"

definition retryableFuncWithBackoff_attempt ::
  "(nat \<Rightarrow> nat \<Rightarrow> nat) \<Rightarrow> 'e options \<Rightarrow> ('e, 'v) attempt \<Rightarrow> ('e, 'v) closure \<Rightarrow> 'e phase \<times> ('e, 'v) closure" where
  "retryableFuncWithBackoff_attempt getBackedoffDelay options a w =
     (let w1 = source_runs a w in
      case ending a of
        Succeeds \<Rightarrow> (Finished, emit Completed w1)
      | Fails error \<Rightarrow>
          (case retryableFuncWithBackoff_catch getBackedoffDelay options error w1 of
             (Rethrown e, w2) \<Rightarrow> (Failed e, emit (Thrown e) w2)
           | (Delayed d, w2) \<Rightarrow> (Waiting d, w2)))"

text \<open>
  A subscription to the observable that \<^verbatim>\<open>retryWithBackoff(obs, options)\<close> returned, on
  the closure \<open>w\<close> of that call, from its first attempt to its end, while no other
  subscription to that observable is under way: between its own callbacks only the
  debounced timeout runs on the closure. After the backoff delay the callback
  re-subscribes to \<^verbatim>\<open>source\<close> (line 66), which runs the next attempt under the same
  closure. When the list of attempts is used up the source is subscribed once more and
  stays \<open>Active\<close>. Invocations that follow one another on a wrapper are runs of this
  function on the closure that the previous one left.
\<close>

fun retryWithBackoff ::
  "(nat \<Rightarrow> nat \<Rightarrow> nat) \<Rightarrow> 'e options \<Rightarrow> ('e, 'v) attempt list \<Rightarrow> ('e, 'v) closure \<Rightarrow> 'e phase \<times> ('e, 'v) closure" where
  "retryWithBackoff getBackedoffDelay options [] w = (Active, emit Subscribed w)"
| "retryWithBackoff getBackedoffDelay options (a # rest) w =
     (case retryWithBackoff_attempt getBackedoffDelay options a w of
        (Waiting d, w1) \<Rightarrow>
          retryWithBackoff getBackedoffDelay options rest (retryWithBackoff_timer options d w1)
      | (p, w1) \<Rightarrow> (p, w1))"

text \<open>
  A call \<^verbatim>\<open>doRetry(...args)\<close> of the function that
  \<^verbatim>\<open>retryableFuncWithBackoff(fn, options)\<close> returned, on the closure \<open>w\<close> of that call,
  from its first attempt to its end, while no other call of that function is under
  way; the list holds what the successive calls \<^verbatim>\<open>fn(...args)\<close> do. After the backoff
  delay the callback calls \<^verbatim>\<open>doRetry(...args)\<close> again (line 118).
\<close>

fun doRetry ::
  "(nat \<Rightarrow> nat \<Rightarrow> nat) \<Rightarrow> 'e options \<Rightarrow> ('e, 'v) attempt list \<Rightarrow> ('e, 'v) closure \<Rightarrow> 'e phase \<times> ('e, 'v) closure" where
  "doRetry getBackedoffDelay options [] w = (Active, emit Subscribed w)"
| "doRetry getBackedoffDelay options (a # rest) w =
     (case retryableFuncWithBackoff_attempt getBackedoffDelay options a w of
        (Waiting d, w1) \<Rightarrow>
          doRetry getBackedoffDelay options rest (retryableFuncWithBackoff_timer options d w1)
      | (p, w1) \<Rightarrow> (p, w1))"

subsection \<open>Several invocations on one wrapper\<close>

text \<open>
  When several subscriptions or calls of one wrapper are under way, their callbacks
  run on the one closure, one at a time, in the order of the event loop. An event is
  what happens to one of the invocations, together with the time that has passed since
  the previous event: an invocation starts (\<open>Subscribes\<close>), its source emits a value or
  completes, its source fails (the \<^verbatim>\<open>catch\<close> handler runs, and what it throws reaches the
  caller), or its backoff timer fires (the \<^verbatim>\<open>mergeMap\<close> callback runs and the next
  attempt starts). Whichever invocation an event belongs to, the callback is the same
  and works on the same closure.
\<close>

datatype ('e, 'v) happening = Subscribes | Emits 'v | Completes | Errors 'e | TimerFires

definition retryWithBackoff_event ::
  "(nat \<Rightarrow> nat \<Rightarrow> nat) \<Rightarrow> 'e options \<Rightarrow> nat \<times> ('e, 'v) happening \<Rightarrow> ('e, 'v) closure \<Rightarrow> ('e, 'v) closure" where
  "retryWithBackoff_event getBackedoffDelay options ev w =
     (case snd ev of
        Subscribes \<Rightarrow> emit Subscribed (elapse (fst ev) w)
      | Emits v \<Rightarrow> emit (Emitted v) (elapse (fst ev) w)
      | Completes \<Rightarrow> emit Completed (elapse (fst ev) w)
      | Errors error \<Rightarrow>
          (case retryWithBackoff_catch getBackedoffDelay options error (elapse (fst ev) w) of
             (Rethrown e, w1) \<Rightarrow> emit (Thrown e) w1
           | (Delayed d, w1) \<Rightarrow> w1)
      | TimerFires \<Rightarrow> emit Subscribed (retryWithBackoff_timer options (fst ev) w))"

definition retryableFuncWithBackoff_event ::
  "(nat \<Rightarrow> nat \<Rightarrow> nat) \<Rightarrow> 'e options \<Rightarrow> nat \<times> ('e, 'v) happening \<Rightarrow> ('e, 'v) closure \<Rightarrow> ('e, 'v) closure" where
  "retryableFuncWithBackoff_event getBackedoffDelay options ev w =
     (case snd ev of
        Subscribes \<Rightarrow> emit Subscribed (elapse (fst ev) w)
      | Emits v \<Rightarrow> emit (Emitted v) (elapse (fst ev) w)
      | Completes \<Rightarrow> emit Completed (elapse (fst ev) w)
      | Errors error \<Rightarrow>
          (case retryableFuncWithBackoff_catch getBackedoffDelay options error (elapse (fst ev) w) of
             (Rethrown e, w1) \<Rightarrow> emit (Thrown e) w1
           | (Delayed d, w1) \<Rightarrow> w1)
      | TimerFires \<Rightarrow> emit Subscribed (retryableFuncWithBackoff_timer options (fst ev) w))"

fun retryWithBackoff_events ::
  "(nat \<Rightarrow> nat \<Rightarrow> nat) \<Rightarrow> 'e options \<Rightarrow> (nat \<times> ('e, 'v) happening) list \<Rightarrow> ('e, 'v) closure \<Rightarrow> ('e, 'v) closure" where
  "retryWithBackoff_events getBackedoffDelay options [] w = w"
| "retryWithBackoff_events getBackedoffDelay options (ev # evs) w =
     retryWithBackoff_events getBackedoffDelay options evs
       (retryWithBackoff_event getBackedoffDelay options ev w)"

fun retryableFuncWithBackoff_events ::
  "(nat \<Rightarrow> nat \<Rightarrow> nat) \<Rightarrow> 'e options \<Rightarrow> (nat \<times> ('e, 'v) happening) list \<Rightarrow> ('e, 'v) closure \<Rightarrow> ('e, 'v) closure" where
  "retryableFuncWithBackoff_events getBackedoffDelay options [] w = w"
| "retryableFuncWithBackoff_events getBackedoffDelay options (ev # evs) w =
     retryableFuncWithBackoff_events getBackedoffDelay options evs
       (retryableFuncWithBackoff_event getBackedoffDelay options ev w)"

text \<open>
  An event that neither handles a failure nor lets a backoff timer fire: it leaves the
  counter and the debounced timeout to the passing of time.
\<close>

definition quiet :: "nat \<times> ('e, 'v) happening \<Rightarrow> bool" where
  "quiet ev = (case snd ev of Errors e \<Rightarrow> False | TimerFires \<Rightarrow> False | _ \<Rightarrow> True)"

text \<open>
  The events of an invocation that is alone on its wrapper, after its first
  subscription: each attempt gives its values and then its end, and after an error that
  is answered by a retry the backoff timer fires with the delay that the handler chose.
  \<open>retryWithBackoff\<close> above is the run of the callbacks on these events (lemma
  \<open>alone_run\<close> below).
\<close>

definition attempt_events :: "('e, 'v) attempt \<Rightarrow> (nat \<times> ('e, 'v) happening) list" where
  "attempt_events a =
     map (\<lambda>v. (0, Emits v)) (emits a)
       @ [(lasts a, case ending a of Succeeds \<Rightarrow> Completes | Fails error \<Rightarrow> Errors error)]"

fun alone ::
  "(nat \<Rightarrow> nat \<Rightarrow> nat) \<Rightarrow> 'e options \<Rightarrow> ('e, 'v) attempt list \<Rightarrow> ('e, 'v) closure \<Rightarrow> (nat \<times> ('e, 'v) happening) list" where
  "alone getBackedoffDelay options [] w = []"
| "alone getBackedoffDelay options (a # rest) w =
     attempt_events a @
       (case retryWithBackoff_attempt getBackedoffDelay options a w of
          (Waiting d, w1) \<Rightarrow>
            (d, TimerFires) # alone getBackedoffDelay options rest (retryWithBackoff_timer options d w1)
        | (p, w1) \<Rightarrow> [])"

text \<open>
  A pending timeout of \<^verbatim>\<open>debounce\<close> is due in the future: so it is after every callback,
  since \<open>elapse\<close> runs a timeout that is due and \<^verbatim>\<open>debounce\<close> sets one
  \<^verbatim>\<open>resetDelay > 0\<close> milliseconds ahead.
\<close>

definition ahead :: "('e, 'v) closure \<Rightarrow> bool" where
  "ahead w = (case debounceTimer w of None \<Rightarrow> True | Some due \<Rightarrow> now w < due)"

subsection \<open>The backoff timer and its cancellation\<close>

text \<open>
  Modelled from the spec: the timer behind \<^verbatim>\<open>timer(fuzzedDelay)\<close> and the cancellation of
  a subscription. Both are the work of RxJS (\<^verbatim>\<open>TimerObservable\<close>, \<^verbatim>\<open>Subscription\<close>);
  \<^verbatim>\<open>retry.js\<close> holds no code for either. The spec (4.2, 4.3, 5) gives the timer as
  \<^verbatim>\<open>schedule(duration, callback) -> handle\<close> and \<^verbatim>\<open>cancel(handle)\<close>: exactly one callback
  fires per schedule call, never before the duration has elapsed; \<^verbatim>\<open>cancel\<close> is
  idempotent and a no-op once the timer has fired; and cancelling while the delay is
  pending cancels the pending timer.

  The state of a waiting invocation is the handle of its backoff timer, as the time at
  which it is due (\<open>None\<close> once it has fired or was cancelled), and the closure of the
  wrapper. The callback is a parameter: for the two wrappers it is the \<^verbatim>\<open>mergeMap\<close>
  callback of lines 64-67 and 116-119, given below as \<open>retryWithBackoff_fires\<close> and
  \<open>retryableFuncWithBackoff_fires\<close>. The timeout of \<^verbatim>\<open>debounce\<close> is not such a timer: it
  is a plain \<^verbatim>\<open>setTimeout\<close> kept in a local variable of lines 12-20, which nothing but a
  further call of the debounced function clears; it runs with the passing of time
  (\<open>elapse\<close>) whether the caller has unsubscribed or not.
\<close>

record ('e, 'v) waiting =
  pendingTimer :: "nat option"
  shared :: "('e, 'v) closure"

datatype caller_event = Tick nat | Unsubscribe

definition schedule :: "nat \<Rightarrow> ('e, 'v) closure \<Rightarrow> ('e, 'v) waiting" where
  "schedule duration w = \<lparr>pendingTimer = Some (now w + duration), shared = w\<rparr>"

definition cancel :: "('e, 'v) waiting \<Rightarrow> ('e, 'v) waiting" where
  "cancel m = m\<lparr>pendingTimer := None\<rparr>"

text \<open>
  \<open>d\<close> milliseconds pass. A pending timer that is due by then fires when it is due: the
  callback runs on the closure as it is at that moment, and the rest of the time passes
  afterwards.
\<close>

definition tick ::
  "(nat \<Rightarrow> ('e, 'v) closure \<Rightarrow> ('e, 'v) closure) \<Rightarrow> nat \<Rightarrow> ('e, 'v) waiting \<Rightarrow> ('e, 'v) waiting" where
  "tick callback d m =
     (case pendingTimer m of
        None \<Rightarrow> m\<lparr>shared := elapse d (shared m)\<rparr>
      | Some due \<Rightarrow>
          if due \<le> now (shared m) + d
          then \<lparr>pendingTimer = None,
                shared = elapse (now (shared m) + d - due)
                           (callback (due - now (shared m)) (shared m))\<rparr>
          else m\<lparr>shared := elapse d (shared m)\<rparr>)"

fun caller_events ::
  "(nat \<Rightarrow> ('e, 'v) closure \<Rightarrow> ('e, 'v) closure) \<Rightarrow> caller_event list \<Rightarrow> ('e, 'v) waiting \<Rightarrow> ('e, 'v) waiting" where
  "caller_events callback [] m = m"
| "caller_events callback (Tick d # evs) m = caller_events callback evs (tick callback d m)"
| "caller_events callback (Unsubscribe # evs) m = caller_events callback evs (cancel m)"

text \<open>The durations of the ticks among the events.\<close>

fun ticks :: "caller_event list \<Rightarrow> nat list" where
  "ticks [] = []"
| "ticks (Tick d # evs) = d # ticks evs"
| "ticks (Unsubscribe # evs) = ticks evs"

text \<open>
  Lines 64-67 and 116-119: what runs when the backoff timer fires \<open>d\<close> milliseconds
  after it was created: the \<^verbatim>\<open>mergeMap\<close> callback, and the subscription to what it returns
  (\<^verbatim>\<open>source\<close>, or the observable of \<^verbatim>\<open>doRetry(...args)\<close>).
\<close>

definition retryWithBackoff_fires :: "'e options \<Rightarrow> nat \<Rightarrow> ('e, 'v) closure \<Rightarrow> ('e, 'v) closure" where
  "retryWithBackoff_fires options d w = emit Subscribed (retryWithBackoff_timer options d w)"

definition retryableFuncWithBackoff_fires :: "'e options \<Rightarrow> nat \<Rightarrow> ('e, 'v) closure \<Rightarrow> ('e, 'v) closure" where
  "retryableFuncWithBackoff_fires options d w =
     emit Subscribed (retryableFuncWithBackoff_timer options d w)"

subsection \<open>Sample inputs\<close>

text \<open>
  A backoff function without jitter, an error selector that writes the count into the
  error, a \<^verbatim>\<open>shouldRetry\<close> that accepts the errors below 500, and a policy over them.
  Errors and values are natural numbers here.
\<close>

definition doubling :: "nat \<Rightarrow> nat \<Rightarrow> nat" where
  "doubling d n = d * 2 ^ (n - 1)"

definition tagged :: "nat \<Rightarrow> nat \<Rightarrow> nat" where
  "tagged e n = 100 * e + n"

definition transient :: "nat \<Rightarrow> bool" where
  "transient e = (e < 500)"

definition policy :: "nat \<Rightarrow> int \<Rightarrow> nat options" where
  "policy n r =
     \<lparr>retryDelay = 100, totalRetry = n, resetDelay = r, shouldRetry = Some transient,
      errorSelector = Some tagged, onRetry = True\<rparr>"

definition failing :: "nat \<Rightarrow> nat \<Rightarrow> (nat, nat) attempt" where
  "failing d e = \<lparr>emits = [], lasts = d, ending = Fails e\<rparr>"

definition succeeding :: "nat \<Rightarrow> (nat, nat) attempt" where
  "succeeding d = \<lparr>emits = [1, 2], lasts = d, ending = Succeeds\<rparr>"

section \<open>Basic facts\<close>

subsection \<open>The two variants run the same code\<close>

lemma emit_simps [simp]:
  "retryCount (emit x w) = retryCount w"
  "debounceTimer (emit x w) = debounceTimer w"
  "now (emit x w) = now w"
  "effects (emit x w) = effects w @ [x]"
  by (simp_all add: emit_def)

lemma catch_same: "retryableFuncWithBackoff_catch = retryWithBackoff_catch"
  by (intro ext) (simp add: retryableFuncWithBackoff_catch_def retryWithBackoff_catch_def)

lemma timer_same: "retryableFuncWithBackoff_timer = retryWithBackoff_timer"
  by (intro ext) (simp add: retryableFuncWithBackoff_timer_def retryWithBackoff_timer_def)

lemma attempt_same: "retryableFuncWithBackoff_attempt = retryWithBackoff_attempt"
  unfolding retryableFuncWithBackoff_attempt_def retryWithBackoff_attempt_def catch_same
  by (rule refl)

lemma doRetry_same: "doRetry B opts script w = retryWithBackoff B opts script w"
proof (induction script arbitrary: w)
  case Nil
  show ?case by simp
next
  case (Cons a script)
  show ?case
    unfolding doRetry.simps retryWithBackoff.simps attempt_same timer_same Cons.IH
    by (rule refl)
qed

subsection \<open>The passing of time\<close>

lemma now_elapse [simp]: "now (elapse d w) = now w + d"
  by (simp add: elapse_def split: option.splits)

lemma elapse_cases:
  "(effects (elapse d w) = effects w \<and> retryCount (elapse d w) = retryCount w
      \<and> debounceTimer (elapse d w) = debounceTimer w)
   \<or> (effects (elapse d w) = effects w @ [CounterReset] \<and> retryCount (elapse d w) = 0
      \<and> debounceTimer (elapse d w) = None)"
  by (simp add: elapse_def split: option.splits)

lemma elapse_None [simp]:
  "debounceTimer w = None \<Longrightarrow> elapse d w = w\<lparr>now := now w + d\<rparr>"
  by (simp add: elapse_def)


lemma elapse_quiet:
  assumes "tally is_CounterReset (elapse d w) = tally is_CounterReset w"
  shows "effects (elapse d w) = effects w" and "retryCount (elapse d w) = retryCount w"
    and "debounceTimer (elapse d w) = debounceTimer w"
  using assms elapse_cases [of d w] by (auto simp: tally_def)

lemma elapse_add: "elapse a (elapse b w) = elapse (b + a) w"
  by (auto simp: elapse_def emit_def split: option.splits)

subsection \<open>Effects are only ever added\<close>

lemma grows_tally: "\<exists>xs. effects w' = effects w @ xs \<Longrightarrow> tally P w \<le> tally P w'"
  by (auto simp: tally_def)

lemma grows_elapse: "\<exists>xs. effects (elapse d w) = effects w @ xs"
  using elapse_cases [of d w] by auto

lemma grows_source_runs: "\<exists>xs. effects (source_runs a w) = effects w @ xs"
proof -
  let ?w = "w\<lparr>effects := effects w @ Subscribed # map Emitted (emits a)\<rparr>"
  obtain xs where "effects (elapse (lasts a) ?w) = effects ?w @ xs"
    using grows_elapse by blast
  then show ?thesis by (simp add: source_runs_def)
qed

lemma catch_unwanted:
  "\<not> wantRetry opts e \<Longrightarrow>
   retryWithBackoff_catch B opts e w = (Rethrown (thrown opts e (retryCount w)), w)"
  by (simp add: retryWithBackoff_catch_def)

lemma catch_exhausted:
  "wantRetry opts e \<Longrightarrow> totalRetry opts \<le> retryCount w \<Longrightarrow>
   retryWithBackoff_catch B opts e w =
     (Rethrown (thrown opts e (retryCount w + 1)), w\<lparr>retryCount := retryCount w + 1\<rparr>)"
  by (simp add: retryWithBackoff_catch_def)

lemma catch_retry:
  "wantRetry opts e \<Longrightarrow> retryCount w < totalRetry opts \<Longrightarrow>
   retryWithBackoff_catch B opts e w =
     (Delayed (B (retryDelay opts) (retryCount w + 1)),
      w\<lparr>retryCount := retryCount w + 1,
        effects := effects w @ (if onRetry opts then [Notified e (retryCount w + 1)] else [])
                     @ [Scheduled (B (retryDelay opts) (retryCount w + 1))]\<rparr>)"
  by (simp add: retryWithBackoff_catch_def emit_def Let_def)

lemma grows_catch: "\<exists>xs. effects (snd (retryWithBackoff_catch B opts e w)) = effects w @ xs"
  by (cases "wantRetry opts e"; cases "retryCount w < totalRetry opts")
     (simp_all add: catch_unwanted catch_exhausted catch_retry)

lemma grows_attempt_source:
  "\<exists>xs. effects (snd (retryWithBackoff_attempt B opts a w)) = effects (source_runs a w) @ xs"
proof (cases "ending a")
  case Succeeds
  then show ?thesis by (simp add: retryWithBackoff_attempt_def Let_def)
next
  case (Fails e)
  obtain ys where ys: "effects (snd (retryWithBackoff_catch B opts e (source_runs a w)))
      = effects (source_runs a w) @ ys"
    using grows_catch [of B opts e "source_runs a w"] by blast
  obtain c w2 where c: "retryWithBackoff_catch B opts e (source_runs a w) = (c, w2)"
    by (cases "retryWithBackoff_catch B opts e (source_runs a w)")
  show ?thesis using Fails ys c
    by (cases c) (simp_all add: retryWithBackoff_attempt_def Let_def)
qed

lemma grows_attempt: "\<exists>xs. effects (snd (retryWithBackoff_attempt B opts a w)) = effects w @ xs"
proof -
  obtain xs where "effects (source_runs a w) = effects w @ xs"
    using grows_source_runs by blast
  moreover obtain ys where
    "effects (snd (retryWithBackoff_attempt B opts a w)) = effects (source_runs a w) @ ys"
    using grows_attempt_source [of B opts a w] by blast
  ultimately show ?thesis by simp
qed

lemma grows_timer: "\<exists>xs. effects (retryWithBackoff_timer opts d w) = effects w @ xs"
  using grows_elapse [of d w] by (auto simp: retryWithBackoff_timer_def debounce_def Let_def)

lemma retryWithBackoff_Cons:
  "retryWithBackoff_attempt B opts a w = (p, w1) \<Longrightarrow>
   retryWithBackoff B opts (a # rest) w =
     (case p of Waiting d \<Rightarrow> retryWithBackoff B opts rest (retryWithBackoff_timer opts d w1)
      | _ \<Rightarrow> (p, w1))"
  by (cases p) simp_all

lemma grows_retryWithBackoff:
  "\<exists>xs. effects (snd (retryWithBackoff B opts script w)) = effects w @ xs"
proof (induction script arbitrary: w)
  case Nil
  show ?case by simp
next
  case (Cons a script)
  obtain p w1 where a: "retryWithBackoff_attempt B opts a w = (p, w1)"
    by (cases "retryWithBackoff_attempt B opts a w")
  obtain xs where xs: "effects w1 = effects w @ xs"
    using grows_attempt [of B opts a w] a by auto
  show ?case
  proof (cases p)
    case (Waiting d)
    obtain ys where ys: "effects (retryWithBackoff_timer opts d w1) = effects w1 @ ys"
      using grows_timer by blast
    obtain zs where "effects (snd (retryWithBackoff B opts script (retryWithBackoff_timer opts d w1)))
        = effects (retryWithBackoff_timer opts d w1) @ zs"
      using Cons.IH by blast
    then show ?thesis using a Waiting xs ys by simp
  qed (use a xs in simp_all)
qed

subsection \<open>Steps in which the counter is not reset\<close>

lemma source_runs_quiet:
  assumes "tally is_CounterReset (source_runs a w) = tally is_CounterReset w"
  shows "effects (source_runs a w) = effects w @ Subscribed # map Emitted (emits a)"
    and "retryCount (source_runs a w) = retryCount w"
    and "debounceTimer (source_runs a w) = debounceTimer w"
proof -
  let ?w = "w\<lparr>effects := effects w @ Subscribed # map Emitted (emits a)\<rparr>"
  have "filter is_CounterReset (map Emitted (emits a)) = ([] :: ('a, 'b) effect list)"
    by (induction "emits a") (simp_all add: filter_empty_conv)
  then have "tally is_CounterReset ?w = tally is_CounterReset w"
    by (simp add: tally_def)
  with assms have q: "tally is_CounterReset (elapse (lasts a) ?w) = tally is_CounterReset ?w"
    by (simp add: source_runs_def)
  show "effects (source_runs a w) = effects w @ Subscribed # map Emitted (emits a)"
    using elapse_quiet(1) [OF q] by (simp add: source_runs_def)
  show "retryCount (source_runs a w) = retryCount w"
    using elapse_quiet(2) [OF q] by (simp add: source_runs_def)
  show "debounceTimer (source_runs a w) = debounceTimer w"
    using elapse_quiet(3) [OF q] by (simp add: source_runs_def)
qed

lemma now_source_runs [simp]: "now (source_runs a w) = now w + lasts a"
  by (simp add: source_runs_def)

lemma timer_quiet:
  assumes "tally is_CounterReset (retryWithBackoff_timer opts d w) = tally is_CounterReset w"
  shows "effects (retryWithBackoff_timer opts d w)
           = effects w @ (if 0 < resetDelay opts then [Touched] else [])"
    and "retryCount (retryWithBackoff_timer opts d w) = retryCount w"
proof -
  have "tally is_CounterReset (retryWithBackoff_timer opts d w) = tally is_CounterReset (elapse d w)"
    by (simp add: retryWithBackoff_timer_def debounce_def Let_def tally_def)
  with assms have q: "tally is_CounterReset (elapse d w) = tally is_CounterReset w"
    by simp
  show "effects (retryWithBackoff_timer opts d w)
           = effects w @ (if 0 < resetDelay opts then [Touched] else [])"
    using elapse_quiet(1) [OF q] by (simp add: retryWithBackoff_timer_def debounce_def Let_def)
  show "retryCount (retryWithBackoff_timer opts d w) = retryCount w"
    using elapse_quiet(2) [OF q] by (simp add: retryWithBackoff_timer_def debounce_def Let_def)
qed

lemma attempt_retry:
  assumes "ending a = Fails e" "wantRetry opts e" "retryCount (source_runs a w) < totalRetry opts"
  shows "retryWithBackoff_attempt B opts a w =
     (Waiting (B (retryDelay opts) (retryCount (source_runs a w) + 1)),
      (source_runs a w)\<lparr>retryCount := retryCount (source_runs a w) + 1,
        effects := effects (source_runs a w)
          @ (if onRetry opts then [Notified e (retryCount (source_runs a w) + 1)] else [])
          @ [Scheduled (B (retryDelay opts) (retryCount (source_runs a w) + 1))]\<rparr>)"
  using assms by (simp add: retryWithBackoff_attempt_def catch_retry Let_def)

lemma attempt_exhausted:
  assumes "ending a = Fails e" "wantRetry opts e" "totalRetry opts \<le> retryCount (source_runs a w)"
  shows "retryWithBackoff_attempt B opts a w =
     (Failed (thrown opts e (retryCount (source_runs a w) + 1)),
      emit (Thrown (thrown opts e (retryCount (source_runs a w) + 1)))
        ((source_runs a w)\<lparr>retryCount := retryCount (source_runs a w) + 1\<rparr>))"
  using assms by (simp add: retryWithBackoff_attempt_def catch_exhausted Let_def)

lemma attempt_unwanted:
  assumes "ending a = Fails e" "\<not> wantRetry opts e"
  shows "retryWithBackoff_attempt B opts a w =
     (Failed (thrown opts e (retryCount (source_runs a w))),
      emit (Thrown (thrown opts e (retryCount (source_runs a w)))) (source_runs a w))"
  using assms by (simp add: retryWithBackoff_attempt_def catch_unwanted Let_def)

lemma attempt_succeeds:
  assumes "ending a = Succeeds"
  shows "retryWithBackoff_attempt B opts a w = (Finished, emit Completed (source_runs a w))"
  using assms by (simp add: retryWithBackoff_attempt_def Let_def)

lemma one_retry:
  assumes a: "ending a = Fails e" and e: "wantRetry opts e"
    and c: "retryCount w < totalRetry opts"
    and quiet: "tally is_CounterReset (snd (retryWithBackoff B opts (a # rest) w))
                  = tally is_CounterReset w"
  obtains w' where
    "retryWithBackoff B opts (a # rest) w = retryWithBackoff B opts rest w'"
    "retryCount w' = retryCount w + 1"
    "effects w' = effects w @ Subscribed # map Emitted (emits a)
        @ (if onRetry opts then [Notified e (retryCount w + 1)] else [])
        @ Scheduled (B (retryDelay opts) (retryCount w + 1))
        # (if 0 < resetDelay opts then [Touched] else [])"
    "tally is_CounterReset (snd (retryWithBackoff B opts rest w')) = tally is_CounterReset w'"
proof -
  let ?R = "tally is_CounterReset"
  let ?w1 = "source_runs a w"
  let ?final = "snd (retryWithBackoff B opts (a # rest) w)"
  obtain p w2 where at: "retryWithBackoff_attempt B opts a w = (p, w2)"
    by (cases "retryWithBackoff_attempt B opts a w")
  have fin: "retryWithBackoff B opts (a # rest) w =
     (case p of Waiting d \<Rightarrow> retryWithBackoff B opts rest (retryWithBackoff_timer opts d w2)
      | _ \<Rightarrow> (p, w2))"
    by (rule retryWithBackoff_Cons [OF at])
  have m1: "?R w \<le> ?R ?w1"
    by (rule grows_tally [OF grows_source_runs])
  have m2: "?R ?w1 \<le> ?R w2"
    using grows_tally [OF grows_attempt_source [of B opts a w]] at by simp
  have m3: "?R w2 \<le> ?R ?final"
  proof (cases p)
    case (Waiting d)
    have "?R w2 \<le> ?R (retryWithBackoff_timer opts d w2)"
      by (rule grows_tally [OF grows_timer])
    also have "\<dots> \<le> ?R (snd (retryWithBackoff B opts rest (retryWithBackoff_timer opts d w2)))"
      by (rule grows_tally [OF grows_retryWithBackoff])
    finally show ?thesis unfolding fin Waiting by simp
  qed (unfold fin, simp_all)
  from m1 m2 m3 quiet have q1: "?R ?w1 = ?R w" by simp
  have c1: "retryCount ?w1 = retryCount w"
    and e1: "effects ?w1 = effects w @ Subscribed # map Emitted (emits a)"
    using source_runs_quiet [OF q1] by simp_all
  let ?d = "B (retryDelay opts) (retryCount w + 1)"
  have p: "p = Waiting ?d"
    and w2: "w2 = ?w1\<lparr>retryCount := retryCount w + 1,
        effects := effects w @ Subscribed # map Emitted (emits a)
          @ (if onRetry opts then [Notified e (retryCount w + 1)] else []) @ [Scheduled ?d]\<rparr>"
    using attempt_retry [OF a e, of w B] c at by (simp_all add: c1 e1)
  let ?w' = "retryWithBackoff_timer opts ?d w2"
  have fin': "retryWithBackoff B opts (a # rest) w = retryWithBackoff B opts rest ?w'"
    unfolding fin p by simp
  have r2: "?R w2 = ?R w"
    by (simp add: w2 tally_def)
  have "?R w2 \<le> ?R ?w'"
    by (rule grows_tally [OF grows_timer])
  moreover have "?R ?w' \<le> ?R ?final"
    unfolding fin' by (rule grows_tally [OF grows_retryWithBackoff])
  ultimately have q2: "?R ?w' = ?R w2" and q3: "?R (snd (retryWithBackoff B opts rest ?w')) = ?R ?w'"
    using quiet r2 fin' by simp_all
  have "retryCount ?w' = retryCount w + 1"
    using timer_quiet(2) [OF q2] by (simp add: w2)
  moreover have "effects ?w' = effects w @ Subscribed # map Emitted (emits a)
        @ (if onRetry opts then [Notified e (retryCount w + 1)] else [])
        @ Scheduled ?d # (if 0 < resetDelay opts then [Touched] else [])"
    using timer_quiet(1) [OF q2] by (simp add: w2)
  ultimately show ?thesis
    using that [of ?w'] fin' q3 by blast
qed


lemma filter_Emitted [simp]:
  "(\<And>v. \<not> P (Emitted v)) \<Longrightarrow> filter P (map Emitted vs) = []"
  by (induction vs) simp_all

lemma tally_source_le_final:
  "tally P (source_runs a w) \<le> tally P (snd (retryWithBackoff B opts (a # rest) w))"
proof -
  obtain p w2 where at: "retryWithBackoff_attempt B opts a w = (p, w2)"
    by (cases "retryWithBackoff_attempt B opts a w")
  have fin: "retryWithBackoff B opts (a # rest) w =
     (case p of Waiting d \<Rightarrow> retryWithBackoff B opts rest (retryWithBackoff_timer opts d w2)
      | _ \<Rightarrow> (p, w2))"
    by (rule retryWithBackoff_Cons [OF at])
  have m2: "tally P (source_runs a w) \<le> tally P w2"
    using grows_tally [OF grows_attempt_source [of B opts a w]] at by simp
  have m3: "tally P w2 \<le> tally P (snd (retryWithBackoff B opts (a # rest) w))"
  proof (cases p)
    case (Waiting d)
    have "tally P w2 \<le> tally P (retryWithBackoff_timer opts d w2)"
      by (rule grows_tally [OF grows_timer])
    also have "\<dots> \<le> tally P (snd (retryWithBackoff B opts rest (retryWithBackoff_timer opts d w2)))"
      by (rule grows_tally [OF grows_retryWithBackoff])
    finally show ?thesis unfolding fin Waiting by simp
  qed (unfold fin, simp_all)
  from m2 m3 show ?thesis by simp
qed

lemma source_quiet_in_run:
  assumes "tally is_CounterReset (snd (retryWithBackoff B opts (a # rest) w)) = tally is_CounterReset w"
  shows "effects (source_runs a w) = effects w @ Subscribed # map Emitted (emits a)"
    and "retryCount (source_runs a w) = retryCount w"
proof -
  have "tally is_CounterReset w \<le> tally is_CounterReset (source_runs a w)"
    by (rule grows_tally [OF grows_source_runs])
  with assms tally_source_le_final [of is_CounterReset a w B opts rest]
  have q: "tally is_CounterReset (source_runs a w) = tally is_CounterReset w"
    by simp
  show "effects (source_runs a w) = effects w @ Subscribed # map Emitted (emits a)"
    and "retryCount (source_runs a w) = retryCount w"
    using source_runs_quiet [OF q] by simp_all
qed

text \<open>
  A run of failures that are each answered by a retry: the counter goes up by one per
  failure, and the retry decisions leave their calls of \<^verbatim>\<open>onRetry\<close> and their backoff
  timers, numbered from the counter on.
\<close>

lemma retries_prefix:
  assumes "map ending fs = map Fails es"
    and "\<forall>e\<in>set es. wantRetry opts e"
    and "retryCount w + length es \<le> totalRetry opts"
    and "tally is_CounterReset (snd (retryWithBackoff B opts (fs @ rest) w)) = tally is_CounterReset w"
  shows "\<exists>w'. retryWithBackoff B opts (fs @ rest) w = retryWithBackoff B opts rest w'
    \<and> retryCount w' = retryCount w + length es
    \<and> filter (\<lambda>x. is_Notified x \<or> is_Scheduled x) (effects w')
        = filter (\<lambda>x. is_Notified x \<or> is_Scheduled x) (effects w)
          @ concat (map (\<lambda>(k, e). (if onRetry opts then [Notified e k] else [])
                                   @ [Scheduled (B (retryDelay opts) k)])
                      (enumerate (retryCount w + 1) es))
    \<and> tally is_Subscribed w' = tally is_Subscribed w + length es
    \<and> tally is_Scheduled w' = tally is_Scheduled w + length es
    \<and> tally is_Thrown w' = tally is_Thrown w
    \<and> tally is_CounterReset (snd (retryWithBackoff B opts rest w')) = tally is_CounterReset w'"
  using assms
proof (induction fs arbitrary: w es)
  case Nil
  then show ?case by (intro exI [of _ w]) simp
next
  case (Cons a fs)
  from Cons.prems(1) obtain e es' where es: "es = e # es'" and a: "ending a = Fails e"
    and fs: "map ending fs = map Fails es'"
    by (cases es) auto
  have e: "wantRetry opts e" and es': "\<forall>e\<in>set es'. wantRetry opts e"
    using Cons.prems(2) es by simp_all
  have c: "retryCount w < totalRetry opts"
    using Cons.prems(3) es by simp
  have quiet: "tally is_CounterReset (snd (retryWithBackoff B opts (a # (fs @ rest)) w))
      = tally is_CounterReset w"
    using Cons.prems(4) by simp
  obtain w1 where run1: "retryWithBackoff B opts (a # (fs @ rest)) w = retryWithBackoff B opts (fs @ rest) w1"
    and c1: "retryCount w1 = retryCount w + 1"
    and e1: "effects w1 = effects w @ Subscribed # map Emitted (emits a)
        @ (if onRetry opts then [Notified e (retryCount w + 1)] else [])
        @ Scheduled (B (retryDelay opts) (retryCount w + 1))
        # (if 0 < resetDelay opts then [Touched] else [])"
    and q1: "tally is_CounterReset (snd (retryWithBackoff B opts (fs @ rest) w1)) = tally is_CounterReset w1"
    by (rule one_retry [OF a e c quiet])
  have "retryCount w1 + length es' \<le> totalRetry opts"
    using Cons.prems(3) es c1 by simp
  from Cons.IH [OF fs es' this q1] obtain w' where
    run': "retryWithBackoff B opts (fs @ rest) w1 = retryWithBackoff B opts rest w'"
    and c': "retryCount w' = retryCount w1 + length es'"
    and d': "filter (\<lambda>x. is_Notified x \<or> is_Scheduled x) (effects w')
        = filter (\<lambda>x. is_Notified x \<or> is_Scheduled x) (effects w1)
          @ concat (map (\<lambda>(k, e). (if onRetry opts then [Notified e k] else [])
                                   @ [Scheduled (B (retryDelay opts) k)])
                      (enumerate (retryCount w1 + 1) es'))"
    and s': "tally is_Subscribed w' = tally is_Subscribed w1 + length es'"
    and t': "tally is_Scheduled w' = tally is_Scheduled w1 + length es'"
    and x': "tally is_Thrown w' = tally is_Thrown w1"
    and q': "tally is_CounterReset (snd (retryWithBackoff B opts rest w')) = tally is_CounterReset w'"
    by blast
  have "retryWithBackoff B opts ((a # fs) @ rest) w = retryWithBackoff B opts rest w'"
    using run1 run' by simp
  moreover have "retryCount w' = retryCount w + length es"
    using c' c1 es by simp
  moreover have "filter (\<lambda>x. is_Notified x \<or> is_Scheduled x) (effects w')
        = filter (\<lambda>x. is_Notified x \<or> is_Scheduled x) (effects w)
          @ concat (map (\<lambda>(k, e). (if onRetry opts then [Notified e k] else [])
                                   @ [Scheduled (B (retryDelay opts) k)])
                      (enumerate (retryCount w + 1) es))"
    unfolding d' e1 es c1 by simp
  moreover have "tally is_Subscribed w' = tally is_Subscribed w + length es"
    unfolding s' es by (simp add: tally_def e1)
  moreover have "tally is_Scheduled w' = tally is_Scheduled w + length es"
    unfolding t' es by (simp add: tally_def e1)
  moreover have "tally is_Thrown w' = tally is_Thrown w"
    unfolding x' by (simp add: tally_def e1)
  ultimately show ?case using q' by blast
qed

subsection \<open>Evaluating sample runs, and counting effects\<close>

lemmas sample_defs = policy_def failing_def succeeding_def created_def doubling_def tagged_def
  transient_def
lemmas step_defs = retryWithBackoff_attempt_def retryWithBackoff_catch_def
  retryWithBackoff_timer_def source_runs_def wantRetry_def thrown_def emit_def elapse_def
  debounce_def tally_def

lemma tally_elapse:
  "\<not> P CounterReset \<Longrightarrow> tally P (elapse d w) = tally P w"
  using elapse_cases [of d w] by (auto simp: tally_def)

lemma tally_source_runs:
  "\<not> P CounterReset \<Longrightarrow> (\<And>v. \<not> P (Emitted v)) \<Longrightarrow>
   tally P (source_runs a w) = tally P w + (if P Subscribed then 1 else 0)"
  by (simp add: source_runs_def tally_elapse) (simp add: tally_def)

lemma tally_timer:
  "\<not> P CounterReset \<Longrightarrow>
   tally P (retryWithBackoff_timer opts d w)
     = tally P w + (if 0 < resetDelay opts \<and> P Touched then 1 else 0)"
  using tally_elapse [of P d w]
  by (simp add: retryWithBackoff_timer_def debounce_def Let_def) (simp add: tally_def)

lemma attempt_cases:
  obtains (succeeds) "ending a = Succeeds"
      "retryWithBackoff_attempt B opts a w = (Finished, emit Completed (source_runs a w))"
  | (unwanted) e where "ending a = Fails e" "\<not> wantRetry opts e"
      "retryWithBackoff_attempt B opts a w =
         (Failed (thrown opts e (retryCount (source_runs a w))),
          emit (Thrown (thrown opts e (retryCount (source_runs a w)))) (source_runs a w))"
  | (exhausted) e where "ending a = Fails e" "wantRetry opts e"
      "totalRetry opts \<le> retryCount (source_runs a w)"
      "retryWithBackoff_attempt B opts a w =
         (Failed (thrown opts e (retryCount (source_runs a w) + 1)),
          emit (Thrown (thrown opts e (retryCount (source_runs a w) + 1)))
            ((source_runs a w)\<lparr>retryCount := retryCount (source_runs a w) + 1\<rparr>))"
  | (retry) e where "ending a = Fails e" "wantRetry opts e"
      "retryCount (source_runs a w) < totalRetry opts"
      "retryWithBackoff_attempt B opts a w =
         (Waiting (B (retryDelay opts) (retryCount (source_runs a w) + 1)),
          (source_runs a w)\<lparr>retryCount := retryCount (source_runs a w) + 1,
            effects := effects (source_runs a w)
              @ (if onRetry opts then [Notified e (retryCount (source_runs a w) + 1)] else [])
              @ [Scheduled (B (retryDelay opts) (retryCount (source_runs a w) + 1))]\<rparr>)"
proof (cases "ending a")
  case Succeeds
  then show ?thesis using succeeds attempt_succeeds by blast
next
  case (Fails e)
  show ?thesis
  proof (cases "wantRetry opts e")
    case False
    then show ?thesis using unwanted [OF Fails] attempt_unwanted [OF Fails] by blast
  next
    case True
    show ?thesis
    proof (cases "retryCount (source_runs a w) < totalRetry opts")
      case True
      show ?thesis
        by (rule retry [OF Fails \<open>wantRetry opts e\<close> True attempt_retry [OF Fails \<open>wantRetry opts e\<close> True]])
    next
      case False
      then have le: "totalRetry opts \<le> retryCount (source_runs a w)" by simp
      show ?thesis
        by (rule exhausted [OF Fails True le attempt_exhausted [OF Fails True le]])
    qed
  qed
qed

lemma tally_attempt_Subscribed:
  "tally is_Subscribed (snd (retryWithBackoff_attempt B opts a w)) = tally is_Subscribed w + 1"
  by (rule attempt_cases [where a = a and B = B and opts = opts and w = w])
     (simp_all add: tally_source_runs, simp_all add: tally_def tally_source_runs [unfolded tally_def])

lemma tally_attempt_Touched:
  "tally is_Touched (snd (retryWithBackoff_attempt B opts a w)) = tally is_Touched w"
  by (rule attempt_cases [where a = a and B = B and opts = opts and w = w])
     (simp_all add: tally_source_runs, simp_all add: tally_def tally_source_runs [unfolded tally_def])

lemma tally_attempt_Scheduled:
  "tally is_Scheduled (snd (retryWithBackoff_attempt B opts a w))
     = tally is_Scheduled w + (case fst (retryWithBackoff_attempt B opts a w) of Waiting d \<Rightarrow> 1 | _ \<Rightarrow> 0)"
  by (rule attempt_cases [where a = a and B = B and opts = opts and w = w])
     (simp_all add: tally_source_runs, simp_all add: tally_def tally_source_runs [unfolded tally_def])

lemma run_counts:
  "tally is_Subscribed (snd (retryWithBackoff B opts script w)) + tally is_Scheduled w
     = tally is_Subscribed w + 1 + tally is_Scheduled (snd (retryWithBackoff B opts script w))
   \<and> tally is_Touched (snd (retryWithBackoff B opts script w))
        + (if 0 < resetDelay opts then tally is_Scheduled w else 0)
     = tally is_Touched w
        + (if 0 < resetDelay opts then tally is_Scheduled (snd (retryWithBackoff B opts script w)) else 0)"
proof (induction script arbitrary: w)
  case Nil
  show ?case by (simp add: tally_def)
next
  case (Cons a script)
  obtain p w1 where at: "retryWithBackoff_attempt B opts a w = (p, w1)"
    by (cases "retryWithBackoff_attempt B opts a w")
  have fin: "retryWithBackoff B opts (a # script) w =
     (case p of Waiting d \<Rightarrow> retryWithBackoff B opts script (retryWithBackoff_timer opts d w1)
      | _ \<Rightarrow> (p, w1))"
    by (rule retryWithBackoff_Cons [OF at])
  have s1: "tally is_Subscribed w1 = tally is_Subscribed w + 1"
    using tally_attempt_Subscribed [of B opts a w] at by simp
  have t1: "tally is_Touched w1 = tally is_Touched w"
    using tally_attempt_Touched [of B opts a w] at by simp
  have c1: "tally is_Scheduled w1 = tally is_Scheduled w + (case p of Waiting d \<Rightarrow> 1 | _ \<Rightarrow> 0)"
    using tally_attempt_Scheduled [of B opts a w] at by simp
  show ?case
  proof (cases p)
    case (Waiting d)
    let ?w2 = "retryWithBackoff_timer opts d w1"
    have "tally is_Subscribed ?w2 = tally is_Subscribed w + 1"
      and "tally is_Scheduled ?w2 = tally is_Scheduled w + 1"
      and "tally is_Touched ?w2 = tally is_Touched w + (if 0 < resetDelay opts then 1 else 0)"
      using s1 t1 c1 Waiting by (simp_all add: tally_timer)
    with Cons.IH [of ?w2] show ?thesis
      unfolding fin Waiting by (simp split: if_splits)
  qed (unfold fin, use s1 t1 c1 in simp_all)
qed

section \<open>The claims\<close>

text \<open>
  C6. \<^verbatim>\<open>shouldRetry(error)\<close> decides before the counter is looked at, and counts as true
  when absent. When it refuses an error, whatever the counter and \<^verbatim>\<open>totalRetry\<close> are,
  the handler throws at once: the closure is left as it was (the counter is not
  incremented, \<^verbatim>\<open>onRetry\<close> is not called, no backoff timer is created), no further
  attempt is made, and the caller receives \<^verbatim>\<open>errorSelector(error, retryCount)\<close>, or the
  error itself when there is no \<^verbatim>\<open>errorSelector\<close>.
\<close>

theorem C6_shouldRetry_decides_first:
  assumes "\<not> wantRetry opts e" and "ending a = Fails e"
  shows "retryWithBackoff_catch B opts e w = (Rethrown (thrown opts e (retryCount w)), w)
    \<and> retryableFuncWithBackoff_catch B opts e w = (Rethrown (thrown opts e (retryCount w)), w)
    \<and> retryWithBackoff B opts (a # rest) w =
         (Failed (thrown opts e (retryCount (source_runs a w))),
          emit (Thrown (thrown opts e (retryCount (source_runs a w)))) (source_runs a w))
    \<and> doRetry B opts (a # rest) w =
         (Failed (thrown opts e (retryCount (source_runs a w))),
          emit (Thrown (thrown opts e (retryCount (source_runs a w)))) (source_runs a w))
    \<and> thrown opts e n = (case errorSelector opts of None \<Rightarrow> e | Some sel \<Rightarrow> sel e n)
    \<and> wantRetry (opts\<lparr>shouldRetry := None\<rparr>) e"
proof -
  have 1: "retryWithBackoff_catch B opts e w = (Rethrown (thrown opts e (retryCount w)), w)"
    by (rule catch_unwanted [OF assms(1)])
  have 2: "retryWithBackoff B opts (a # rest) w =
           (Failed (thrown opts e (retryCount (source_runs a w))),
            emit (Thrown (thrown opts e (retryCount (source_runs a w)))) (source_runs a w))"
    by (simp add: attempt_unwanted [OF assms(2,1)])
  have 3: "thrown opts e n = (case errorSelector opts of None \<Rightarrow> e | Some sel \<Rightarrow> sel e n)"
    by (simp add: thrown_def split: option.splits)
  have 4: "wantRetry (opts\<lparr>shouldRetry := None\<rparr>) e"
    by (simp add: wantRetry_def)
  show ?thesis
    unfolding catch_same doRetry_same using 1 2 3 4 by blast
qed

theorem C6_witness:
  "retryWithBackoff doubling (policy 3 0) [failing 10 503, succeeding 1] (created 0) =
     (Failed (tagged 503 0),
      \<lparr>retryCount = 0, debounceTimer = None, now = 10,
       effects = [Subscribed, Thrown (tagged 503 0)]\<rparr>)
   \<and> doRetry doubling (policy 3 0) [failing 10 503, succeeding 1] (created 0) =
     (Failed (tagged 503 0),
      \<lparr>retryCount = 0, debounceTimer = None, now = 10,
       effects = [Subscribed, Thrown (tagged 503 0)]\<rparr>)"
proof -
  have h1: "\<not> wantRetry (policy 3 0) 503"
    by (simp add: wantRetry_def policy_def transient_def)
  have h2: "ending (failing 10 503) = Fails 503"
    by (simp add: failing_def)
  have s: "source_runs (failing 10 503) (created 0)
     = \<lparr>retryCount = 0, debounceTimer = None, now = 10, effects = [Subscribed]\<rparr>"
    by (simp add: source_runs_def failing_def created_def)
  have t: "thrown (policy 3 0) 503 0 = tagged 503 0"
    by (simp add: thrown_def policy_def)
  show ?thesis
    using C6_shouldRetry_decides_first [OF h1 h2, of doubling "created 0" "[succeeding 1]"]
    by (simp add: s t emit_def)
qed

text \<open>
  The claim C3 takes the count given to \<^verbatim>\<open>errorSelector\<close> to be the attempt count as it
  stands when the failure arrives. On an exhausted budget the handler has incremented
  the counter by then: with \<^verbatim>\<open>totalRetry = 0\<close> the first failure on a new wrapper arrives
  at count 0 and the caller receives \<^verbatim>\<open>errorSelector(error, 1)\<close>. At that same first
  failure an error that \<^verbatim>\<open>shouldRetry\<close> refuses gives \<^verbatim>\<open>errorSelector(error, 0)\<close>: no
  count that depends on the time of the failure alone fits both.
\<close>

theorem C3_counterexample:
  "retryCount (created 0 :: (nat, nat) closure) = 0
   \<and> totalRetry (policy 0 0) = 0
   \<and> errorSelector (policy 0 0) = Some tagged
   \<and> wantRetry (policy 0 0) 7
   \<and> retryWithBackoff doubling (policy 0 0) [failing 10 7] (created 0) =
       (Failed (tagged 7 1),
        \<lparr>retryCount = 1, debounceTimer = None, now = 10,
         effects = [Subscribed, Thrown (tagged 7 1)]\<rparr>)
   \<and> doRetry doubling (policy 0 0) [failing 10 7] (created 0) =
       (Failed (tagged 7 1),
        \<lparr>retryCount = 1, debounceTimer = None, now = 10,
         effects = [Subscribed, Thrown (tagged 7 1)]\<rparr>)
   \<and> tagged 7 1 \<noteq> tagged 7 0
   \<and> \<not> wantRetry (policy 0 0) 503
   \<and> retryWithBackoff doubling (policy 0 0) [failing 10 503] (created 0) =
       (Failed (tagged 503 0),
        \<lparr>retryCount = 0, debounceTimer = None, now = 10,
         effects = [Subscribed, Thrown (tagged 503 0)]\<rparr>)
   \<and> doRetry doubling (policy 0 0) [failing 10 503] (created 0) =
       (Failed (tagged 503 0),
        \<lparr>retryCount = 0, debounceTimer = None, now = 10,
         effects = [Subscribed, Thrown (tagged 503 0)]\<rparr>)"
  by (simp add: doRetry_same) (simp add: sample_defs step_defs)

text \<open>
  C3, as the code has it. Whenever an attempt ends in giving up, the caller receives
  the error itself when there is no \<^verbatim>\<open>errorSelector\<close>, and otherwise
  \<^verbatim>\<open>errorSelector(error, n)\<close> where \<open>n\<close> is the counter after the decision: the counter
  at the failure when \<^verbatim>\<open>shouldRetry\<close> refused the error, and one more than that when the
  budget was exhausted. Nothing else reaches the caller.
\<close>

theorem C3_give_up_error:
  assumes "ending a = Fails e"
    and "retryWithBackoff_attempt B opts a w = (Failed x, w')"
  shows "x = (case errorSelector opts of None \<Rightarrow> e | Some sel \<Rightarrow> sel e (retryCount w'))
    \<and> retryCount w' = (if wantRetry opts e then retryCount (source_runs a w) + 1
                       else retryCount (source_runs a w))
    \<and> effects w' = effects (source_runs a w) @ [Thrown x]
    \<and> retryableFuncWithBackoff_attempt B opts a w = (Failed x, w')"
proof (rule attempt_cases [where a = a and B = B and opts = opts and w = w])
  assume "ending a = Succeeds"
  with assms(1) show ?thesis by simp
next
  fix e' assume "ending a = Fails e'" "\<not> wantRetry opts e'"
    and "retryWithBackoff_attempt B opts a w =
         (Failed (thrown opts e' (retryCount (source_runs a w))),
          emit (Thrown (thrown opts e' (retryCount (source_runs a w)))) (source_runs a w))"
  with assms show ?thesis
    by (auto simp: attempt_same thrown_def split: option.splits)
next
  fix e' assume "ending a = Fails e'" "wantRetry opts e'"
    and "retryWithBackoff_attempt B opts a w =
         (Failed (thrown opts e' (retryCount (source_runs a w) + 1)),
          emit (Thrown (thrown opts e' (retryCount (source_runs a w) + 1)))
            ((source_runs a w)\<lparr>retryCount := retryCount (source_runs a w) + 1\<rparr>))"
  with assms show ?thesis
    by (auto simp: attempt_same thrown_def split: option.splits)
next
  fix e' assume "retryWithBackoff_attempt B opts a w =
         (Waiting (B (retryDelay opts) (retryCount (source_runs a w) + 1)),
          (source_runs a w)\<lparr>retryCount := retryCount (source_runs a w) + 1,
            effects := effects (source_runs a w)
              @ (if onRetry opts then [Notified e' (retryCount (source_runs a w) + 1)] else [])
              @ [Scheduled (B (retryDelay opts) (retryCount (source_runs a w) + 1))]\<rparr>)"
  with assms(2) show ?thesis by simp
qed

theorem C3_witness:
  "tagged 7 1 = 701
   \<and> retryableFuncWithBackoff_attempt doubling (policy 0 0) (failing 10 7) (created 0) =
       (Failed (tagged 7 1),
        \<lparr>retryCount = 1, debounceTimer = None, now = 10,
         effects = [Subscribed, Thrown (tagged 7 1)]\<rparr> :: (nat, nat) closure)"
proof -
  have h1: "ending (failing 10 7) = Fails 7"
    by (simp add: failing_def)
  have h2: "retryWithBackoff_attempt doubling (policy 0 0) (failing 10 7) (created 0) =
       (Failed (tagged 7 1),
        \<lparr>retryCount = 1, debounceTimer = None, now = 10,
         effects = [Subscribed, Thrown (tagged 7 1)]\<rparr>)"
    by (simp add: sample_defs step_defs)
  show ?thesis
    using C3_give_up_error [OF h1 h2] by (simp add: tagged_def)
qed

text \<open>
  The claim C10 has \<^verbatim>\<open>errorSelector\<close> receive \<^verbatim>\<open>totalRetry + 1\<close>, or one more than the
  number of retries made, whenever the budget is exhausted. The counter lives in the
  closure of the wrapper and the increment of a give-up stays in it: with
  \<^verbatim>\<open>totalRetry = 0\<close> and no reset, the second call of the returned function makes no
  retry either and gives \<^verbatim>\<open>errorSelector\<close> the count 2.
\<close>

theorem C10_counterexample:
  "totalRetry (policy 0 0) = 0
   \<and> wantRetry (policy 0 0) 7
   \<and> doRetry doubling (policy 0 0) [failing 10 7] (created 0) =
       (Failed (tagged 7 1),
        \<lparr>retryCount = 1, debounceTimer = None, now = 10,
         effects = [Subscribed, Thrown (tagged 7 1)]\<rparr>)
   \<and> doRetry doubling (policy 0 0) [failing 10 7]
        (snd (doRetry doubling (policy 0 0) [failing 10 7] (created 0))) =
       (Failed (tagged 7 2),
        \<lparr>retryCount = 2, debounceTimer = None, now = 20,
         effects = [Subscribed, Thrown (tagged 7 1), Subscribed, Thrown (tagged 7 2)]\<rparr>)
   \<and> retryWithBackoff doubling (policy 0 0) [failing 10 7]
        (snd (retryWithBackoff doubling (policy 0 0) [failing 10 7] (created 0))) =
       (Failed (tagged 7 2),
        \<lparr>retryCount = 2, debounceTimer = None, now = 20,
         effects = [Subscribed, Thrown (tagged 7 1), Subscribed, Thrown (tagged 7 2)]\<rparr>)
   \<and> tagged 7 2 \<noteq> tagged 7 (totalRetry (policy 0 0) + 1)"
  by (simp add: doRetry_same) (simp add: sample_defs step_defs)

text \<open>
  C10, as the code has it. The two causes of giving up treat the counter differently.
  On an exhausted budget (the error is accepted and the counter has reached
  \<^verbatim>\<open>totalRetry\<close>) the counter is incremented first and \<^verbatim>\<open>errorSelector\<close> receives one
  more than the counter held when the failure arrived: \<^verbatim>\<open>totalRetry + 1\<close> when the
  counter was exactly \<^verbatim>\<open>totalRetry\<close>. When \<^verbatim>\<open>shouldRetry\<close> refuses the error the counter
  is left unchanged and \<^verbatim>\<open>errorSelector\<close> receives the counter as it is.
\<close>

theorem C10_counter_on_give_up:
  assumes "ending a = Fails e"
  shows "(wantRetry opts e \<and> totalRetry opts \<le> retryCount (source_runs a w) \<longrightarrow>
          retryWithBackoff_attempt B opts a w =
            (Failed (thrown opts e (retryCount (source_runs a w) + 1)),
             emit (Thrown (thrown opts e (retryCount (source_runs a w) + 1)))
               ((source_runs a w)\<lparr>retryCount := retryCount (source_runs a w) + 1\<rparr>)))
    \<and> (wantRetry opts e \<and> retryCount (source_runs a w) = totalRetry opts \<longrightarrow>
          fst (retryWithBackoff_attempt B opts a w) = Failed (thrown opts e (totalRetry opts + 1)))
    \<and> (\<not> wantRetry opts e \<longrightarrow>
          retryWithBackoff_attempt B opts a w =
            (Failed (thrown opts e (retryCount (source_runs a w))),
             emit (Thrown (thrown opts e (retryCount (source_runs a w)))) (source_runs a w)))
    \<and> (\<forall>sel. errorSelector opts = Some sel \<longrightarrow> thrown opts e n = sel e n)
    \<and> retryableFuncWithBackoff_attempt B opts a w = retryWithBackoff_attempt B opts a w"
proof -
  have "thrown opts e n = sel e n" if "errorSelector opts = Some sel" for sel
    using that by (simp add: thrown_def)
  moreover have "fst (retryWithBackoff_attempt B opts a w) = Failed (thrown opts e (totalRetry opts + 1))"
    if "wantRetry opts e" "retryCount (source_runs a w) = totalRetry opts"
    using attempt_exhausted [OF assms that(1), of w B] that(2) by simp
  ultimately show ?thesis
    using attempt_exhausted [OF assms, of opts w B] attempt_unwanted [OF assms, of opts B w]
    by (simp add: attempt_same)
qed

theorem C10_witness:
  "retryWithBackoff_attempt doubling (policy 2 0) (failing 10 7)
      (\<lparr>retryCount = 2, debounceTimer = None, now = 0, effects = []\<rparr> :: (nat, nat) closure) =
     (Failed (tagged 7 3), \<lparr>retryCount = 3, debounceTimer = None, now = 10,
        effects = [Subscribed, Thrown (tagged 7 3)]\<rparr>)
   \<and> retryableFuncWithBackoff_attempt doubling (policy 2 0) (failing 10 503)
      (\<lparr>retryCount = 2, debounceTimer = None, now = 0, effects = []\<rparr> :: (nat, nat) closure) =
     (Failed (tagged 503 2), \<lparr>retryCount = 2, debounceTimer = None, now = 10,
        effects = [Subscribed, Thrown (tagged 503 2)]\<rparr>)"
proof -
  let ?w = "\<lparr>retryCount = 2, debounceTimer = None, now = 0, effects = []\<rparr> :: (nat, nat) closure"
  have s: "source_runs (failing 10 e) ?w
     = \<lparr>retryCount = 2, debounceTimer = None, now = 10, effects = [Subscribed]\<rparr>" for e
    by (simp add: source_runs_def failing_def)
  have h: "ending (failing 10 e) = Fails e" for e :: nat
    by (simp add: failing_def)
  have w7: "wantRetry (policy 2 0) 7" and w503: "\<not> wantRetry (policy 2 0) 503"
    by (simp_all add: wantRetry_def policy_def transient_def)
  have t: "thrown (policy 2 0) e n = tagged e n" for e n
    by (simp add: thrown_def policy_def)
  have n: "totalRetry (policy 2 0) = 2"
    by (simp add: policy_def)
  show ?thesis
    using C10_counter_on_give_up [OF h, of "policy 2 0" 7 ?w doubling]
      C10_counter_on_give_up [OF h, of "policy 2 0" 503 ?w doubling]
    by (simp add: s w7 w503 t n emit_def)
qed

lemma give_up_exhausted:
  assumes a: "ending a = Fails e" and e: "wantRetry opts e"
    and c: "totalRetry opts \<le> retryCount w"
    and quiet: "tally is_CounterReset (snd (retryWithBackoff B opts (a # rest) w))
                  = tally is_CounterReset w"
  shows "retryWithBackoff B opts (a # rest) w =
     (Failed (thrown opts e (retryCount w + 1)),
      emit (Thrown (thrown opts e (retryCount w + 1)))
        ((source_runs a w)\<lparr>retryCount := retryCount w + 1\<rparr>))"
    and "effects (source_runs a w) = effects w @ Subscribed # map Emitted (emits a)"
proof -
  have c1: "retryCount (source_runs a w) = retryCount w"
    and e1: "effects (source_runs a w) = effects w @ Subscribed # map Emitted (emits a)"
    using source_quiet_in_run [OF quiet] by simp_all
  show "retryWithBackoff B opts (a # rest) w =
     (Failed (thrown opts e (retryCount w + 1)),
      emit (Thrown (thrown opts e (retryCount w + 1)))
        ((source_runs a w)\<lparr>retryCount := retryCount w + 1\<rparr>))"
    using attempt_exhausted [OF a e, of w B] c by (simp add: c1)
  show "effects (source_runs a w) = effects w @ Subscribed # map Emitted (emits a)"
    by (rule e1)
qed

text \<open>
  The claim C1 is stated for every configuration. With \<^verbatim>\<open>resetDelay > 0\<close> the debounced
  reset is armed when a backoff delay elapses, and it runs while the retried attempt is
  still under way if that attempt takes longer than \<^verbatim>\<open>resetDelay\<close> to fail: the counter
  is back at 0 when the failure arrives. With \<^verbatim>\<open>totalRetry = 1\<close>, \<^verbatim>\<open>resetDelay = 5\<close> and
  attempts that fail after 10 milliseconds, a third retry has been made after three
  failures, and nothing has been thrown.
\<close>

theorem C1_counterexample:
  "totalRetry (policy 1 5) = 1
   \<and> wantRetry (policy 1 5) 7
   \<and> retryWithBackoff doubling (policy 1 5) [failing 10 7, failing 10 7, failing 10 7] (created 0) =
       (Active,
        \<lparr>retryCount = 1, debounceTimer = Some 335, now = 330,
         effects = [Subscribed, Notified 7 1, Scheduled 100, Touched,
                    Subscribed, CounterReset, Notified 7 1, Scheduled 100, Touched,
                    Subscribed, CounterReset, Notified 7 1, Scheduled 100, Touched,
                    Subscribed]\<rparr>)
   \<and> doRetry doubling (policy 1 5) [failing 10 7, failing 10 7, failing 10 7] (created 0) =
       (Active,
        \<lparr>retryCount = 1, debounceTimer = Some 335, now = 330,
         effects = [Subscribed, Notified 7 1, Scheduled 100, Touched,
                    Subscribed, CounterReset, Notified 7 1, Scheduled 100, Touched,
                    Subscribed, CounterReset, Notified 7 1, Scheduled 100, Touched,
                    Subscribed]\<rparr>)"
  by (simp add: doRetry_same) (simp add: sample_defs step_defs)

text \<open>
  C1, as the code has it. Take an invocation during which no other invocation of the
  same wrapper is under way, that starts with the counter at \<open>c \<le> totalRetry\<close>
  (\<open>c = 0\<close> for the first invocation on a wrapper) and during which the debounced
  reset does not run (it never does when \<^verbatim>\<open>resetDelay <= 0\<close>). If every
  attempt fails with an error that \<^verbatim>\<open>shouldRetry\<close> accepts, then \<^verbatim>\<open>retryWithBackoff\<close> and
  \<^verbatim>\<open>retryableFuncWithBackoff\<close> make exactly \<open>totalRetry - c\<close> retries, that is
  \<open>totalRetry - c + 1\<close> attempts, and then throw the selected error of the last
  attempt: no further backoff timer is created.
\<close>

theorem C1_exact_retries:
  assumes fails: "map ending script = map Fails es"
    and wanted: "\<forall>e\<in>set es. wantRetry opts e"
    and start: "retryCount w \<le> totalRetry opts"
    and enough: "totalRetry opts - retryCount w < length es"
    and quiet: "tally is_CounterReset (snd (retryWithBackoff B opts script w))
                  = tally is_CounterReset w"
  shows "fst (retryWithBackoff B opts script w)
           = Failed (thrown opts (es ! (totalRetry opts - retryCount w)) (totalRetry opts + 1))
    \<and> tally is_Subscribed (snd (retryWithBackoff B opts script w))
           = tally is_Subscribed w + (totalRetry opts - retryCount w) + 1
    \<and> tally is_Scheduled (snd (retryWithBackoff B opts script w))
           = tally is_Scheduled w + (totalRetry opts - retryCount w)
    \<and> tally is_Thrown (snd (retryWithBackoff B opts script w)) = tally is_Thrown w + 1
    \<and> doRetry B opts script w = retryWithBackoff B opts script w"
proof -
  let ?k = "totalRetry opts - retryCount w"
  have len: "length script = length es"
    using fails by (metis length_map)
  obtain a rest where dr: "drop ?k script = a # rest"
    using enough len by (cases "drop ?k script") simp_all
  have split: "script = take ?k script @ a # rest"
    using dr by (metis append_take_drop_id)
  have a: "ending a = Fails (es ! ?k)"
  proof -
    have "ending a = ending (script ! ?k)"
      using dr enough len by (metis Cons_nth_drop_Suc list.inject)
    also have "\<dots> = map ending script ! ?k"
      using enough len by simp
    also have "\<dots> = Fails (es ! ?k)"
      using enough by (simp add: fails)
    finally show ?thesis .
  qed
  have e: "wantRetry opts (es ! ?k)"
    using wanted enough by simp
  have f1: "map ending (take ?k script) = map Fails (take ?k es)"
    using fails by (simp add: take_map [symmetric])
  have w1: "\<forall>e\<in>set (take ?k es). wantRetry opts e"
    using wanted by (meson in_set_takeD)
  have l1: "retryCount w + length (take ?k es) \<le> totalRetry opts"
    using start enough by simp
  have q1: "tally is_CounterReset (snd (retryWithBackoff B opts (take ?k script @ a # rest) w))
      = tally is_CounterReset w"
    using quiet split by simp
  from retries_prefix [OF f1 w1 l1 q1] obtain w' where
    run: "retryWithBackoff B opts (take ?k script @ a # rest) w = retryWithBackoff B opts (a # rest) w'"
    and c': "retryCount w' = retryCount w + length (take ?k es)"
    and s': "tally is_Subscribed w' = tally is_Subscribed w + length (take ?k es)"
    and t': "tally is_Scheduled w' = tally is_Scheduled w + length (take ?k es)"
    and th: "tally is_Thrown w' = tally is_Thrown w"
    and d': "filter (\<lambda>x. is_Notified x \<or> is_Scheduled x) (effects w')
        = filter (\<lambda>x. is_Notified x \<or> is_Scheduled x) (effects w)
          @ concat (map (\<lambda>(k, e). (if onRetry opts then [Notified e k] else [])
                                   @ [Scheduled (B (retryDelay opts) k)])
                      (enumerate (retryCount w + 1) (take ?k es)))"
    and q': "tally is_CounterReset (snd (retryWithBackoff B opts (a # rest) w')) = tally is_CounterReset w'"
    by blast
  have lk: "length (take ?k es) = ?k"
    using enough by simp
  have cN: "retryCount w' = totalRetry opts"
    using c' lk start by simp
  have run': "retryWithBackoff B opts script w = retryWithBackoff B opts (a # rest) w'"
    using run split by simp
  have fin: "retryWithBackoff B opts (a # rest) w' =
     (Failed (thrown opts (es ! ?k) (totalRetry opts + 1)),
      emit (Thrown (thrown opts (es ! ?k) (totalRetry opts + 1)))
        ((source_runs a w')\<lparr>retryCount := retryCount w' + 1\<rparr>))"
    and src: "effects (source_runs a w') = effects w' @ Subscribed # map Emitted (emits a)"
    using give_up_exhausted [OF a e _ q'] cN by simp_all
  have s'': "tally is_Subscribed w' = tally is_Subscribed w + ?k"
    and t'': "tally is_Scheduled w' = tally is_Scheduled w + ?k"
    using s' t' lk by simp_all
  show ?thesis
    unfolding doRetry_same run' fin
    by (simp add: tally_def src s'' [unfolded tally_def] t'' [unfolded tally_def]
          th [unfolded tally_def])
qed


theorem C1_witness:
  "fst (retryWithBackoff doubling (policy 2 500)
          [failing 10 7, failing 10 8, failing 10 9, failing 10 7] (created 0)) = Failed (tagged 9 3)
   \<and> tally is_Subscribed (snd (retryWithBackoff doubling (policy 2 500)
          [failing 10 7, failing 10 8, failing 10 9, failing 10 7] (created 0))) = 3
   \<and> tally is_Scheduled (snd (retryWithBackoff doubling (policy 2 500)
          [failing 10 7, failing 10 8, failing 10 9, failing 10 7] (created 0))) = 2
   \<and> fst (doRetry doubling (policy 2 500)
          [failing 10 7, failing 10 8, failing 10 9, failing 10 7] (created 0)) = Failed (tagged 9 3)"
proof -
  let ?script = "[failing 10 7, failing 10 8, failing 10 9, failing 10 7]"
  let ?w = "created 0 :: (nat, nat) closure"
  have run: "retryWithBackoff doubling (policy 2 500) ?script ?w =
       (Failed (tagged 9 3),
        \<lparr>retryCount = 3, debounceTimer = Some 820, now = 330,
         effects = [Subscribed, Notified 7 1, Scheduled 100, Touched,
                    Subscribed, Notified 8 2, Scheduled 200, Touched,
                    Subscribed, Thrown (tagged 9 3)]\<rparr>)"
    by (simp add: sample_defs step_defs)
  have h1: "map ending ?script = map Fails [7, 8, 9, 7]"
    by (simp add: failing_def)
  have h2: "\<forall>e\<in>set [7, 8, 9, 7]. wantRetry (policy 2 500) e"
    by (simp add: wantRetry_def policy_def transient_def)
  have h3: "retryCount ?w \<le> totalRetry (policy 2 500)"
    by (simp add: created_def)
  have h4: "totalRetry (policy 2 500) - retryCount ?w < length [7, 8, 9, 7 :: nat]"
    by (simp add: created_def policy_def)
  have h5: "tally is_CounterReset (snd (retryWithBackoff doubling (policy 2 500) ?script ?w))
      = tally is_CounterReset ?w"
    unfolding run by (simp add: tally_def created_def)
  have c: "retryCount ?w = 0" "totalRetry (policy 2 500) = 2" "thrown (policy 2 500) 9 3 = tagged 9 3"
    "tally is_Subscribed ?w = 0" "tally is_Scheduled ?w = 0"
    by (simp_all add: created_def policy_def thrown_def tally_def)
  show ?thesis
    using C1_exact_retries [OF h1 h2 h3 h4 h5] by (simp add: c)
qed

lemma finish_quiet:
  assumes s: "ending s = Succeeds"
    and quiet: "tally is_CounterReset (snd (retryWithBackoff B opts (s # rest) w))
                  = tally is_CounterReset w"
  shows "retryWithBackoff B opts (s # rest) w = (Finished, emit Completed (source_runs s w))"
    and "effects (source_runs s w) = effects w @ Subscribed # map Emitted (emits s)"
    and "retryCount (source_runs s w) = retryCount w"
proof -
  show "retryWithBackoff B opts (s # rest) w = (Finished, emit Completed (source_runs s w))"
    by (simp add: attempt_succeeds [OF s])
  show "effects (source_runs s w) = effects w @ Subscribed # map Emitted (emits s)"
    and "retryCount (source_runs s w) = retryCount w"
    using source_quiet_in_run [OF quiet] by simp_all
qed

text \<open>
  The claim C4 numbers the calls of \<^verbatim>\<open>onRetry\<close> from 1 in every invocation. The counter
  belongs to the wrapper: when the returned function is called a second time, with no
  reset in between (\<^verbatim>\<open>resetDelay = 0\<close>), an operation that fails once and then succeeds
  (\<open>N = 1 \<le> totalRetry = 2\<close>) has \<^verbatim>\<open>onRetry\<close> called with the count 2.
\<close>

theorem C4_counterexample:
  "totalRetry (policy 2 0) = 2
   \<and> resetDelay (policy 2 0) = 0
   \<and> doRetry doubling (policy 2 0) [failing 10 7, succeeding 1] (created 0) =
       (Finished,
        \<lparr>retryCount = 1, debounceTimer = None, now = 111,
         effects = [Subscribed, Notified 7 1, Scheduled 100,
                    Subscribed, Emitted 1, Emitted 2, Completed]\<rparr>)
   \<and> doRetry doubling (policy 2 0) [failing 10 7, succeeding 1]
        (snd (doRetry doubling (policy 2 0) [failing 10 7, succeeding 1] (created 0))) =
       (Finished,
        \<lparr>retryCount = 2, debounceTimer = None, now = 322,
         effects = [Subscribed, Notified 7 1, Scheduled 100,
                    Subscribed, Emitted 1, Emitted 2, Completed,
                    Subscribed, Notified 7 2, Scheduled 200,
                    Subscribed, Emitted 1, Emitted 2, Completed]\<rparr>)"
  by (simp add: doRetry_same) (simp add: sample_defs step_defs)

text \<open>
  C4, as the code has it. Take an invocation during which no other invocation of the
  same wrapper is under way and that starts with the counter at \<open>c\<close>, on an operation
  that fails \<open>N\<close> times with errors that \<^verbatim>\<open>shouldRetry\<close> accepts and then succeeds, with
  \<open>c + N \<le> totalRetry\<close> and no reset of the counter in between. Then
  \<^verbatim>\<open>onRetry\<close> is called exactly once per retry, with the counts \<open>c + 1, \<dots>, c + N\<close> in this
  order (\<open>1, \<dots>, N\<close> when the counter starts at 0, as in the first invocation on a wrapper),
  and each call comes right before the backoff timer of that retry is created.
\<close>

theorem C4_onRetry_calls:
  assumes fails: "map ending fs = map Fails es"
    and wanted: "\<forall>e\<in>set es. wantRetry opts e"
    and succeeds: "ending s = Succeeds"
    and budget: "retryCount w + length es \<le> totalRetry opts"
    and hook: "onRetry opts"
    and quiet: "tally is_CounterReset (snd (retryWithBackoff B opts (fs @ s # rest) w))
                  = tally is_CounterReset w"
  shows "fst (retryWithBackoff B opts (fs @ s # rest) w) = Finished
    \<and> filter (\<lambda>x. is_Notified x \<or> is_Scheduled x)
          (effects (snd (retryWithBackoff B opts (fs @ s # rest) w)))
        = filter (\<lambda>x. is_Notified x \<or> is_Scheduled x) (effects w)
          @ concat (map (\<lambda>(k, e). [Notified e k, Scheduled (B (retryDelay opts) k)])
                      (enumerate (retryCount w + 1) es))
    \<and> doRetry B opts (fs @ s # rest) w = retryWithBackoff B opts (fs @ s # rest) w"
proof -
  from retries_prefix [OF fails wanted budget quiet] obtain w' where
    run: "retryWithBackoff B opts (fs @ s # rest) w = retryWithBackoff B opts (s # rest) w'"
    and d': "filter (\<lambda>x. is_Notified x \<or> is_Scheduled x) (effects w')
        = filter (\<lambda>x. is_Notified x \<or> is_Scheduled x) (effects w)
          @ concat (map (\<lambda>(k, e). (if onRetry opts then [Notified e k] else [])
                                   @ [Scheduled (B (retryDelay opts) k)])
                      (enumerate (retryCount w + 1) es))"
    and q': "tally is_CounterReset (snd (retryWithBackoff B opts (s # rest) w')) = tally is_CounterReset w'"
    by blast
  have fin: "retryWithBackoff B opts (s # rest) w' = (Finished, emit Completed (source_runs s w'))"
    and src: "effects (source_runs s w') = effects w' @ Subscribed # map Emitted (emits s)"
    using finish_quiet [OF succeeds q'] by simp_all
  show ?thesis
    unfolding doRetry_same run fin by (simp add: src d' hook)
qed

theorem C4_witness:
  "filter (\<lambda>x. is_Notified x \<or> is_Scheduled x)
     (effects (snd (retryWithBackoff doubling (policy 3 500)
        [failing 10 7, failing 10 8, succeeding 1] (created 0))))
    = [Notified 7 1, Scheduled (doubling 100 1), Notified 8 2, Scheduled (doubling 100 2)]
   \<and> fst (doRetry doubling (policy 3 500)
        [failing 10 7, failing 10 8, succeeding 1] (created 0)) = Finished"
proof -
  let ?w = "created 0 :: (nat, nat) closure"
  have app: "[failing 10 7, failing 10 8] @ succeeding 1 # []
      = [failing 10 7, failing 10 8, succeeding 1]"
    by simp
  have run: "retryWithBackoff doubling (policy 3 500)
        [failing 10 7, failing 10 8, succeeding 1] ?w =
       (Finished,
        \<lparr>retryCount = 2, debounceTimer = Some 820, now = 321,
         effects = [Subscribed, Notified 7 1, Scheduled 100, Touched,
                    Subscribed, Notified 8 2, Scheduled 200, Touched,
                    Subscribed, Emitted 1, Emitted 2, Completed]\<rparr>)"
    by (simp add: sample_defs step_defs)
  have h1: "map ending [failing 10 7, failing 10 8] = map Fails [7, 8]"
    by (simp add: failing_def)
  have h2: "\<forall>e\<in>set [7, 8]. wantRetry (policy 3 500) e"
    by (simp add: wantRetry_def policy_def transient_def)
  have h3: "ending (succeeding 1) = Succeeds"
    by (simp add: succeeding_def)
  have h4: "retryCount ?w + length [7, 8 :: nat] \<le> totalRetry (policy 3 500)"
    by (simp add: created_def policy_def)
  have h5: "onRetry (policy 3 500)"
    by (simp add: policy_def)
  have h6: "tally is_CounterReset (snd (retryWithBackoff doubling (policy 3 500)
        ([failing 10 7, failing 10 8] @ succeeding 1 # []) ?w)) = tally is_CounterReset ?w"
    unfolding app run by (simp add: tally_def created_def)
  have c: "retryCount ?w = 0" "effects ?w = []" "retryDelay (policy 3 500) = 100"
    by (simp_all add: created_def policy_def)
  show ?thesis
    using C4_onRetry_calls [OF h1 h2 h3 h4 h5 h6]
    unfolding app doRetry_same run by (simp add: c doubling_def)
qed

text \<open>
  The claim C2 gives every invocation a counter of its own. In the code
  \<^verbatim>\<open>let retryCount = 0\<close> stands in the body of \<^verbatim>\<open>retryWithBackoff\<close> and of
  \<^verbatim>\<open>retryableFuncWithBackoff\<close>, outside the returned observable and outside
  \<^verbatim>\<open>doRetry\<close>: with \<^verbatim>\<open>totalRetry = 1\<close>, a first call that needed one retry leaves the
  counter at 1, and the first failure of a second call finds the budget used up.
\<close>

theorem C2_counterexample:
  "totalRetry (policy 1 0) = 1
   \<and> doRetry doubling (policy 1 0) [failing 10 7, succeeding 1] (created 0) =
       (Finished,
        \<lparr>retryCount = 1, debounceTimer = None, now = 111,
         effects = [Subscribed, Notified 7 1, Scheduled 100,
                    Subscribed, Emitted 1, Emitted 2, Completed]\<rparr>)
   \<and> doRetry doubling (policy 1 0) [failing 10 7, succeeding 1]
        (snd (doRetry doubling (policy 1 0) [failing 10 7, succeeding 1] (created 0))) =
       (Failed (tagged 7 2),
        \<lparr>retryCount = 2, debounceTimer = None, now = 121,
         effects = [Subscribed, Notified 7 1, Scheduled 100,
                    Subscribed, Emitted 1, Emitted 2, Completed,
                    Subscribed, Thrown (tagged 7 2)]\<rparr>)
   \<and> retryWithBackoff doubling (policy 1 0) [failing 10 7, succeeding 1]
        (snd (retryWithBackoff doubling (policy 1 0) [failing 10 7, succeeding 1] (created 0))) =
       (Failed (tagged 7 2),
        \<lparr>retryCount = 2, debounceTimer = None, now = 121,
         effects = [Subscribed, Notified 7 1, Scheduled 100,
                    Subscribed, Emitted 1, Emitted 2, Completed,
                    Subscribed, Thrown (tagged 7 2)]\<rparr>)"
  by (simp add: doRetry_same) (simp add: sample_defs step_defs)

lemma Scheduled_of_retries:
  "filter is_Scheduled
     (concat (map (\<lambda>(k, e). (if hook then [Notified e k] else []) @ [Scheduled (f k)])
        (enumerate c es)))
   = map (\<lambda>k. Scheduled (f k)) [c..<c + length es]"
proof (induction es arbitrary: c)
  case Nil
  show ?case by simp
next
  case (Cons e es)
  have "[c..<c + length (e # es)] = c # [Suc c..<Suc c + length es]"
    by (simp add: upt_conv_Cons del: upt_Suc)
  with Cons.IH [of "Suc c"] show ?case by (simp del: upt_Suc)
qed

lemma filter_Scheduled_decisions:
  "filter is_Scheduled xs = filter is_Scheduled (filter (\<lambda>x. is_Notified x \<or> is_Scheduled x) xs)"
  by (induction xs) auto

text \<open>
  The claim C7 numbers the retries of each invocation from 1. The number given to
  \<^verbatim>\<open>getBackedoffDelay\<close> is the counter of the wrapper: with no reset
  (\<^verbatim>\<open>resetDelay = 0\<close>), the first retry of a second subscription to the returned
  observable, or of a second call of the returned function, is scheduled with the
  attempt number 2 when the first invocation made one retry.
\<close>

theorem C7_counterexample:
  "resetDelay (policy 2 0) = 0
   \<and> filter is_Scheduled (effects (snd
        (retryWithBackoff doubling (policy 2 0) [failing 5 7, succeeding 1] (created 0))))
      = [Scheduled (doubling (retryDelay (policy 2 0)) 1)]
   \<and> filter is_Scheduled (effects (snd
        (retryWithBackoff doubling (policy 2 0) [failing 5 7, succeeding 1]
          (snd (retryWithBackoff doubling (policy 2 0) [failing 5 7, succeeding 1] (created 0))))))
      = [Scheduled (doubling (retryDelay (policy 2 0)) 1),
         Scheduled (doubling (retryDelay (policy 2 0)) 2)]
   \<and> filter is_Scheduled (effects (snd
        (doRetry doubling (policy 2 0) [failing 5 7, succeeding 1]
          (snd (doRetry doubling (policy 2 0) [failing 5 7, succeeding 1] (created 0))))))
      = [Scheduled (doubling (retryDelay (policy 2 0)) 1),
         Scheduled (doubling (retryDelay (policy 2 0)) 2)]
   \<and> doubling (retryDelay (policy 2 0)) 2 \<noteq> doubling (retryDelay (policy 2 0)) 1"
  by (simp add: doRetry_same) (simp add: sample_defs step_defs)

text \<open>
  C7, as the code has it. Every retry decision schedules the delay
  \<^verbatim>\<open>getBackedoffDelay(retryDelay, n)\<close> where \<open>n\<close> is one more than the counter held when
  the failure arrived. In an invocation that starts with the counter at \<open>c\<close>, during
  which no other invocation of the same wrapper is under way and in which the counter
  is not reset, the \<open>k\<close>-th retry therefore uses the attempt number \<open>c + k\<close>: the numbers
  \<open>1, 2, \<dots>\<close> when the counter starts at 0, as in the first invocation on a wrapper.
\<close>

theorem C7_backoff_delays:
  assumes fails: "map ending script = map Fails es"
    and wanted: "\<forall>e\<in>set es. wantRetry opts e"
    and budget: "retryCount w + length es \<le> totalRetry opts"
    and quiet: "tally is_CounterReset (snd (retryWithBackoff B opts script w))
                  = tally is_CounterReset w"
  shows "filter is_Scheduled (effects (snd (retryWithBackoff B opts script w)))
        = filter is_Scheduled (effects w)
          @ map (\<lambda>k. Scheduled (B (retryDelay opts) k))
              [retryCount w + 1..<retryCount w + 1 + length es]
    \<and> doRetry B opts script w = retryWithBackoff B opts script w
    \<and> (\<forall>e u d u'. retryWithBackoff_catch B opts e (u :: ('e, 'v) closure) = (Delayed d, u') \<longrightarrow>
          d = B (retryDelay opts) (retryCount u + 1))
    \<and> (\<forall>e u d u'. retryableFuncWithBackoff_catch B opts e (u :: ('e, 'v) closure) = (Delayed d, u') \<longrightarrow>
          d = B (retryDelay opts) (retryCount u + 1))"
proof -
  have q: "tally is_CounterReset (snd (retryWithBackoff B opts (script @ []) w))
      = tally is_CounterReset w"
    using quiet by simp
  from retries_prefix [OF fails wanted budget q] obtain w' where
    run: "retryWithBackoff B opts (script @ []) w = retryWithBackoff B opts [] w'"
    and d': "filter (\<lambda>x. is_Notified x \<or> is_Scheduled x) (effects w')
        = filter (\<lambda>x. is_Notified x \<or> is_Scheduled x) (effects w)
          @ concat (map (\<lambda>(k, e). (if onRetry opts then [Notified e k] else [])
                                   @ [Scheduled (B (retryDelay opts) k)])
                      (enumerate (retryCount w + 1) es))"
    by blast
  let ?D = "\<lambda>x. is_Notified x \<or> is_Scheduled x"
  have "filter is_Scheduled (effects w') = filter is_Scheduled (filter ?D (effects w'))"
    by (rule filter_Scheduled_decisions)
  also have "\<dots> = filter is_Scheduled (filter ?D (effects w))
      @ filter is_Scheduled (concat (map (\<lambda>(k, e). (if onRetry opts then [Notified e k] else [])
                                   @ [Scheduled (B (retryDelay opts) k)])
                      (enumerate (retryCount w + 1) es)))"
    by (simp only: d' filter_append)
  also have "\<dots> = filter is_Scheduled (effects w)
      @ map (\<lambda>k. Scheduled (B (retryDelay opts) k))
          [retryCount w + 1..<retryCount w + 1 + length es]"
    by (simp only: filter_Scheduled_decisions [symmetric] Scheduled_of_retries)
  finally have sched: "filter is_Scheduled (effects w')
      = filter is_Scheduled (effects w)
        @ map (\<lambda>k. Scheduled (B (retryDelay opts) k))
            [retryCount w + 1..<retryCount w + 1 + length es]" .
  have run': "retryWithBackoff B opts script w = (Active, emit Subscribed w')"
    using run by simp
  have catch: "d = B (retryDelay opts) (retryCount u + 1)"
    if "retryWithBackoff_catch B opts e u = (Delayed d, u')" for e d and u u' :: "('e, 'v) closure"
    using that by (auto simp: retryWithBackoff_catch_def Let_def split: if_splits)
  show ?thesis
    unfolding doRetry_same catch_same run' using sched catch by (simp del: upt_Suc)
qed


theorem C7_witness:
  "filter is_Scheduled (effects (snd
     (retryWithBackoff doubling (policy 3 500) [failing 10 7, failing 10 8] (created 0))))
   = [Scheduled (doubling 100 1), Scheduled (doubling 100 2)]
   \<and> doRetry doubling (policy 3 500) [failing 10 7, failing 10 8] (created 0)
     = retryWithBackoff doubling (policy 3 500) [failing 10 7, failing 10 8] (created 0)"
proof -
  let ?w = "created 0 :: (nat, nat) closure"
  have run: "retryWithBackoff doubling (policy 3 500) [failing 10 7, failing 10 8] ?w =
       (Active,
        \<lparr>retryCount = 2, debounceTimer = Some 820, now = 320,
         effects = [Subscribed, Notified 7 1, Scheduled 100, Touched,
                    Subscribed, Notified 8 2, Scheduled 200, Touched, Subscribed]\<rparr>)"
    by (simp add: sample_defs step_defs)
  have h1: "map ending [failing 10 7, failing 10 8] = map Fails [7, 8]"
    by (simp add: failing_def)
  have h2: "\<forall>e\<in>set [7, 8]. wantRetry (policy 3 500) e"
    by (simp add: wantRetry_def policy_def transient_def)
  have h3: "retryCount ?w + length [7, 8 :: nat] \<le> totalRetry (policy 3 500)"
    by (simp add: created_def policy_def)
  have h4: "tally is_CounterReset (snd (retryWithBackoff doubling (policy 3 500)
        [failing 10 7, failing 10 8] ?w)) = tally is_CounterReset ?w"
    unfolding run by (simp add: tally_def created_def)
  have c: "retryCount ?w = 0" "effects ?w = []" "retryDelay (policy 3 500) = 100"
    by (simp_all add: created_def policy_def)
  have "filter is_Scheduled (effects (snd
     (retryWithBackoff doubling (policy 3 500) [failing 10 7, failing 10 8] ?w)))
   = filter is_Scheduled (effects ?w)
     @ map (\<lambda>k. Scheduled (doubling (retryDelay (policy 3 500)) k))
         [retryCount ?w + 1..<retryCount ?w + 1 + length [7, 8 :: nat]]"
    and "doRetry doubling (policy 3 500) [failing 10 7, failing 10 8] ?w
     = retryWithBackoff doubling (policy 3 500) [failing 10 7, failing 10 8] ?w"
    using C7_backoff_delays [OF h1 h2 h3 h4] by blast+
  then show ?thesis
    by (simp add: c doubling_def del: retryWithBackoff.simps doRetry.simps)
qed

lemma starts_with_Subscribed:
  "\<exists>xs. effects (snd (retryWithBackoff B opts script w)) = effects w @ Subscribed # xs"
proof (cases script)
  case Nil
  then show ?thesis by simp
next
  case (Cons a rest)
  obtain p w2 where at: "retryWithBackoff_attempt B opts a w = (p, w2)"
    by (cases "retryWithBackoff_attempt B opts a w")
  have fin: "retryWithBackoff B opts (a # rest) w =
     (case p of Waiting d \<Rightarrow> retryWithBackoff B opts rest (retryWithBackoff_timer opts d w2)
      | _ \<Rightarrow> (p, w2))"
    by (rule retryWithBackoff_Cons [OF at])
  obtain xs where xs: "effects (source_runs a w) = effects w @ Subscribed # xs"
    using elapse_cases [of "lasts a" "w\<lparr>effects := effects w @ Subscribed # map Emitted (emits a)\<rparr>"]
    by (auto simp: source_runs_def)
  obtain ys where ys: "effects w2 = effects (source_runs a w) @ ys"
    using grows_attempt_source [of B opts a w] at by auto
  obtain zs where zs: "effects (snd (retryWithBackoff B opts (a # rest) w)) = effects w2 @ zs"
  proof (cases p)
    case (Waiting d)
    obtain us where "effects (retryWithBackoff_timer opts d w2) = effects w2 @ us"
      using grows_timer by blast
    moreover obtain vs where "effects (snd (retryWithBackoff B opts rest (retryWithBackoff_timer opts d w2)))
        = effects (retryWithBackoff_timer opts d w2) @ vs"
      using grows_retryWithBackoff by blast
    ultimately show ?thesis using that unfolding fin Waiting by simp
  qed (use that in \<open>unfold fin, simp_all\<close>)
  show ?thesis
    unfolding Cons zs ys xs by simp
qed

text \<open>
  The claim C8 has the debounced function called only once the retried attempt
  produces or succeeds again, and not when the backoff delay elapses. The code calls
  it in the callback of the backoff timer, before the next attempt is even started:
  with \<^verbatim>\<open>resetDelay = 500\<close>, a retried attempt that fails without having emitted
  anything has been preceded by a touch all the same.
\<close>

theorem C8_counterexample:
  "0 < resetDelay (policy 1 500)
   \<and> retryWithBackoff doubling (policy 1 500) [failing 10 7, failing 10 7] (created 0) =
       (Failed (tagged 7 2),
        \<lparr>retryCount = 2, debounceTimer = Some 610, now = 120,
         effects = [Subscribed, Notified 7 1, Scheduled 100, Touched,
                    Subscribed, Thrown (tagged 7 2)]\<rparr>)
   \<and> doRetry doubling (policy 1 500) [failing 10 7, failing 10 7] (created 0) =
       (Failed (tagged 7 2),
        \<lparr>retryCount = 2, debounceTimer = Some 610, now = 120,
         effects = [Subscribed, Notified 7 1, Scheduled 100, Touched,
                    Subscribed, Thrown (tagged 7 2)]\<rparr>)"
  by (simp add: doRetry_same) (simp add: sample_defs step_defs)

text \<open>
  C8, as the code has it. When \<^verbatim>\<open>resetDelay > 0\<close> the debounced function is called
  exactly once each time a backoff delay elapses, in the callback of the timer and
  right before the next attempt is started, whatever that attempt does afterwards;
  an attempt itself (its values, its completion, its error and the handling of the
  error) never calls it. So in an invocation the number of touches is the number of
  backoff timers created. When \<^verbatim>\<open>resetDelay <= 0\<close> it is never called.
\<close>

theorem C8_touch_when_delay_elapses:
  "tally is_Touched (retryWithBackoff_timer opts d w)
     = tally is_Touched w + (if 0 < resetDelay opts then 1 else 0)
   \<and> tally is_Touched (snd (retryWithBackoff_attempt B opts a w)) = tally is_Touched w
   \<and> (\<exists>xs. effects (snd (retryWithBackoff B opts script (retryWithBackoff_timer opts d w)))
          = effects (elapse d w) @ (if 0 < resetDelay opts then [Touched] else []) @ Subscribed # xs)
   \<and> tally is_Touched (snd (retryWithBackoff B opts script w))
        + (if 0 < resetDelay opts then tally is_Scheduled w else 0)
     = tally is_Touched w
        + (if 0 < resetDelay opts then tally is_Scheduled (snd (retryWithBackoff B opts script w)) else 0)
   \<and> retryableFuncWithBackoff_timer opts d w = retryWithBackoff_timer opts d w
   \<and> retryableFuncWithBackoff_attempt B opts a w = retryWithBackoff_attempt B opts a w
   \<and> doRetry B opts script w = retryWithBackoff B opts script w"
proof -
  have 1: "tally is_Touched (retryWithBackoff_timer opts d w)
     = tally is_Touched w + (if 0 < resetDelay opts then 1 else 0)"
    by (simp add: tally_timer)
  have 2: "tally is_Touched (snd (retryWithBackoff_attempt B opts a w)) = tally is_Touched w"
    by (rule tally_attempt_Touched)
  have 3: "\<exists>xs. effects (snd (retryWithBackoff B opts script (retryWithBackoff_timer opts d w)))
          = effects (elapse d w) @ (if 0 < resetDelay opts then [Touched] else []) @ Subscribed # xs"
  proof -
    have "effects (retryWithBackoff_timer opts d w)
        = effects (elapse d w) @ (if 0 < resetDelay opts then [Touched] else [])"
      by (simp add: retryWithBackoff_timer_def debounce_def Let_def)
    then show ?thesis
      using starts_with_Subscribed [of B opts script "retryWithBackoff_timer opts d w"] by auto
  qed
  show ?thesis
    unfolding doRetry_same attempt_same timer_same
    using 1 2 3 run_counts [of B opts script w] by blast
qed

theorem C8_witness:
  "tally is_Touched (snd (retryWithBackoff doubling (policy 3 500)
      [failing 10 7, succeeding 1] (created 0))) = 1
   \<and> tally is_Scheduled (snd (retryWithBackoff doubling (policy 3 500)
      [failing 10 7, succeeding 1] (created 0))) = 1
   \<and> tally is_Touched (snd (retryWithBackoff_attempt doubling (policy 3 500)
      (succeeding 1) (created 0))) = 0"
proof -
  let ?w = "created 0 :: (nat, nat) closure"
  have run: "retryWithBackoff doubling (policy 3 500) [failing 10 7, succeeding 1] ?w =
       (Finished,
        \<lparr>retryCount = 1, debounceTimer = Some 610, now = 111,
         effects = [Subscribed, Notified 7 1, Scheduled 100, Touched,
                    Subscribed, Emitted 1, Emitted 2, Completed]\<rparr>)"
    by (simp add: sample_defs step_defs)
  have c: "0 < resetDelay (policy 3 500)" "tally is_Touched ?w = 0" "tally is_Scheduled ?w = 0"
    by (simp_all add: policy_def created_def tally_def)
  have "tally is_Touched (snd (retryWithBackoff doubling (policy 3 500)
          [failing 10 7, succeeding 1] ?w))
        + (if 0 < resetDelay (policy 3 500) then tally is_Scheduled ?w else 0)
      = tally is_Touched ?w
        + (if 0 < resetDelay (policy 3 500)
           then tally is_Scheduled (snd (retryWithBackoff doubling (policy 3 500)
                  [failing 10 7, succeeding 1] ?w)) else 0)"
    and "tally is_Touched (snd (retryWithBackoff_attempt doubling (policy 3 500)
          (succeeding 1) ?w)) = tally is_Touched ?w"
    using C8_touch_when_delay_elapses [of "policy 3 500" 0 ?w doubling "succeeding 1"
        "[failing 10 7, succeeding 1]"]
    by blast+
  then show ?thesis
    unfolding run by (simp add: c) (simp add: tally_def)
qed

subsection \<open>Events of several invocations\<close>

lemma event_same: "retryableFuncWithBackoff_event = retryWithBackoff_event"
  unfolding retryableFuncWithBackoff_event_def retryWithBackoff_event_def catch_same timer_same
  by (rule refl)

lemma events_same:
  "retryableFuncWithBackoff_events B opts evs w = retryWithBackoff_events B opts evs w"
  by (induction evs arbitrary: w) (simp_all add: event_same)

lemma event_cases:
  obtains (passes) x where "snd ev \<noteq> TimerFires" "\<forall>e. snd ev \<noteq> Errors e"
      "retryWithBackoff_event B opts ev w = emit x (elapse (fst ev) w)"
      "x = Subscribed \<or> x = Completed \<or> (\<exists>v. x = Emitted v)"
  | (fires) "snd ev = TimerFires"
      "retryWithBackoff_event B opts ev w = emit Subscribed (retryWithBackoff_timer opts (fst ev) w)"
  | (unwanted) e where "snd ev = Errors e" "\<not> wantRetry opts e"
      "retryWithBackoff_event B opts ev w =
         emit (Thrown (thrown opts e (retryCount (elapse (fst ev) w)))) (elapse (fst ev) w)"
  | (exhausted) e where "snd ev = Errors e" "wantRetry opts e"
      "totalRetry opts \<le> retryCount (elapse (fst ev) w)"
      "retryWithBackoff_event B opts ev w =
         emit (Thrown (thrown opts e (retryCount (elapse (fst ev) w) + 1)))
           ((elapse (fst ev) w)\<lparr>retryCount := retryCount (elapse (fst ev) w) + 1\<rparr>)"
  | (retry) e where "snd ev = Errors e" "wantRetry opts e"
      "retryCount (elapse (fst ev) w) < totalRetry opts"
      "retryWithBackoff_event B opts ev w =
         (elapse (fst ev) w)\<lparr>retryCount := retryCount (elapse (fst ev) w) + 1,
            effects := effects (elapse (fst ev) w)
              @ (if onRetry opts then [Notified e (retryCount (elapse (fst ev) w) + 1)] else [])
              @ [Scheduled (B (retryDelay opts) (retryCount (elapse (fst ev) w) + 1))]\<rparr>"
proof (cases "snd ev")
  case Subscribes
  then show ?thesis using passes [of Subscribed] by (simp add: retryWithBackoff_event_def)
next
  case (Emits v)
  then show ?thesis using passes [of "Emitted v"] by (simp add: retryWithBackoff_event_def)
next
  case Completes
  then show ?thesis using passes [of Completed] by (simp add: retryWithBackoff_event_def)
next
  case TimerFires
  then show ?thesis using fires by (simp add: retryWithBackoff_event_def)
next
  case (Errors e)
  show ?thesis
  proof (cases "wantRetry opts e")
    case False
    then show ?thesis
      using unwanted [OF Errors] Errors by (simp add: retryWithBackoff_event_def catch_unwanted)
  next
    case True
    show ?thesis
    proof (cases "retryCount (elapse (fst ev) w) < totalRetry opts")
      case True
      with \<open>wantRetry opts e\<close> show ?thesis
        using retry [OF Errors] Errors by (simp add: retryWithBackoff_event_def catch_retry)
    next
      case False
      with \<open>wantRetry opts e\<close> show ?thesis
        using exhausted [OF Errors] Errors by (simp add: retryWithBackoff_event_def catch_exhausted)
    qed
  qed
qed

lemma grows_event: "\<exists>xs. effects (retryWithBackoff_event B opts ev w) = effects w @ xs"
proof (rule event_cases [where ev = ev and B = B and opts = opts and w = w])
  fix x assume "retryWithBackoff_event B opts ev w = emit x (elapse (fst ev) w)"
  then show ?thesis using grows_elapse [of "fst ev" w] by auto
next
  assume "retryWithBackoff_event B opts ev w = emit Subscribed (retryWithBackoff_timer opts (fst ev) w)"
  then show ?thesis using grows_timer [of opts "fst ev" w] by auto
next
  fix e assume "retryWithBackoff_event B opts ev w =
         emit (Thrown (thrown opts e (retryCount (elapse (fst ev) w)))) (elapse (fst ev) w)"
  then show ?thesis using grows_elapse [of "fst ev" w] by auto
next
  fix e assume "retryWithBackoff_event B opts ev w =
         emit (Thrown (thrown opts e (retryCount (elapse (fst ev) w) + 1)))
           ((elapse (fst ev) w)\<lparr>retryCount := retryCount (elapse (fst ev) w) + 1\<rparr>)"
  then show ?thesis using grows_elapse [of "fst ev" w] by auto
next
  fix e assume "retryWithBackoff_event B opts ev w =
         (elapse (fst ev) w)\<lparr>retryCount := retryCount (elapse (fst ev) w) + 1,
            effects := effects (elapse (fst ev) w)
              @ (if onRetry opts then [Notified e (retryCount (elapse (fst ev) w) + 1)] else [])
              @ [Scheduled (B (retryDelay opts) (retryCount (elapse (fst ev) w) + 1))]\<rparr>"
  then show ?thesis using grows_elapse [of "fst ev" w] by auto
qed

lemma grows_events: "\<exists>xs. effects (retryWithBackoff_events B opts evs w) = effects w @ xs"
proof (induction evs arbitrary: w)
  case Nil
  show ?case by simp
next
  case (Cons ev evs)
  obtain xs where "effects (retryWithBackoff_event B opts ev w) = effects w @ xs"
    using grows_event [of B opts ev w] by blast
  moreover obtain ys where "effects (retryWithBackoff_events B opts evs (retryWithBackoff_event B opts ev w))
      = effects (retryWithBackoff_event B opts ev w) @ ys"
    using Cons.IH by blast
  ultimately show ?case by simp
qed

text \<open>
  With no reset, every retry moves one unit from what is left of the budget to the
  number of backoff timers created, and nothing else changes either.
\<close>

lemma event_balance:
  assumes "tally is_CounterReset (retryWithBackoff_event B opts ev w) = tally is_CounterReset w"
  shows "tally is_Scheduled (retryWithBackoff_event B opts ev w)
           + (totalRetry opts - retryCount (retryWithBackoff_event B opts ev w))
         = tally is_Scheduled w + (totalRetry opts - retryCount w)"
    and "retryCount w \<le> retryCount (retryWithBackoff_event B opts ev w)"
proof -
  let ?u = "elapse (fst ev) w"
  let ?R = "tally is_CounterReset"
  have le: "?R w \<le> ?R ?u"
    by (rule grows_tally [OF grows_elapse])
  have q: "?R ?u = ?R w \<Longrightarrow> effects ?u = effects w \<and> retryCount ?u = retryCount w"
    using elapse_quiet [of "fst ev" w] by simp
  have both: "tally is_Scheduled (retryWithBackoff_event B opts ev w)
           + (totalRetry opts - retryCount (retryWithBackoff_event B opts ev w))
         = tally is_Scheduled w + (totalRetry opts - retryCount w)
      \<and> retryCount w \<le> retryCount (retryWithBackoff_event B opts ev w)"
  proof (rule event_cases [where ev = ev and B = B and opts = opts and w = w])
    fix x assume e: "retryWithBackoff_event B opts ev w = emit x (elapse (fst ev) w)"
      and x: "x = Subscribed \<or> x = Completed \<or> (\<exists>v. x = Emitted v)"
    from assms e x le have "?R ?u = ?R w" by (auto simp: tally_def)
    with q e x show ?thesis by (auto simp: tally_def)
  next
    assume e: "retryWithBackoff_event B opts ev w = emit Subscribed (retryWithBackoff_timer opts (fst ev) w)"
    from assms e have "?R (retryWithBackoff_timer opts (fst ev) w) = ?R w" by (simp add: tally_def)
    from timer_quiet [OF this] e show ?thesis by (simp add: tally_def)
  next
    fix err assume e: "retryWithBackoff_event B opts ev w =
         emit (Thrown (thrown opts err (retryCount ?u))) ?u"
    from assms e le have "?R ?u = ?R w" by (simp add: tally_def)
    with q e show ?thesis by (simp add: tally_def)
  next
    fix err assume ex: "totalRetry opts \<le> retryCount ?u"
      and e: "retryWithBackoff_event B opts ev w =
         emit (Thrown (thrown opts err (retryCount ?u + 1))) (?u\<lparr>retryCount := retryCount ?u + 1\<rparr>)"
    from assms e le have "?R ?u = ?R w" by (simp add: tally_def)
    with q e ex show ?thesis by (simp add: tally_def)
  next
    fix err assume lt: "retryCount ?u < totalRetry opts"
      and e: "retryWithBackoff_event B opts ev w =
         ?u\<lparr>retryCount := retryCount ?u + 1,
            effects := effects ?u
              @ (if onRetry opts then [Notified err (retryCount ?u + 1)] else [])
              @ [Scheduled (B (retryDelay opts) (retryCount ?u + 1))]\<rparr>"
    from assms e le have "?R ?u = ?R w" by (simp add: tally_def)
    with q e lt show ?thesis by (simp add: tally_def)
  qed
  then show "tally is_Scheduled (retryWithBackoff_event B opts ev w)
           + (totalRetry opts - retryCount (retryWithBackoff_event B opts ev w))
         = tally is_Scheduled w + (totalRetry opts - retryCount w)"
    and "retryCount w \<le> retryCount (retryWithBackoff_event B opts ev w)"
    by simp_all
qed

lemma events_balance:
  assumes "tally is_CounterReset (retryWithBackoff_events B opts evs w) = tally is_CounterReset w"
  shows "tally is_Scheduled (retryWithBackoff_events B opts evs w)
           + (totalRetry opts - retryCount (retryWithBackoff_events B opts evs w))
         = tally is_Scheduled w + (totalRetry opts - retryCount w)
     \<and> retryCount w \<le> retryCount (retryWithBackoff_events B opts evs w)"
  using assms
proof (induction evs arbitrary: w)
  case Nil
  show ?case by simp
next
  case (Cons ev evs)
  let ?u = "retryWithBackoff_event B opts ev w"
  let ?R = "tally is_CounterReset"
  have "?R w \<le> ?R ?u"
    by (rule grows_tally [OF grows_event])
  moreover have "?R ?u \<le> ?R (retryWithBackoff_events B opts evs ?u)"
    by (rule grows_tally [OF grows_events])
  ultimately have q1: "?R ?u = ?R w" and q2: "?R (retryWithBackoff_events B opts evs ?u) = ?R ?u"
    using Cons.prems by simp_all
  from event_balance [OF q1] Cons.IH [OF q2] show ?case by simp
qed

text \<open>
  C2, as the code has it. The counter is created once, at 0, by each call of
  \<^verbatim>\<open>retryWithBackoff\<close> or \<^verbatim>\<open>retryableFuncWithBackoff\<close>, and the handlers of every
  subscription to the returned observable and of every call of the returned function
  read and increment that one counter. The retry budget is therefore that of the
  wrapper, not of an invocation: whatever the invocations on one wrapper are, and
  whether they follow one another or overlap, as long as the debounced reset does not
  run every retry takes one unit of what the counter leaves of \<^verbatim>\<open>totalRetry\<close>, the
  counter never goes down, and all the invocations together make at most
  \<open>totalRetry - c\<close> retries, \<open>c\<close> being the counter at the start.
\<close>

theorem C2_one_counter_per_wrapper:
  assumes quiet: "tally is_CounterReset (retryWithBackoff_events B opts evs w)
                    = tally is_CounterReset w"
  shows "tally is_Scheduled (retryWithBackoff_events B opts evs w)
           + (totalRetry opts - retryCount (retryWithBackoff_events B opts evs w))
         = tally is_Scheduled w + (totalRetry opts - retryCount w)
    \<and> tally is_Scheduled (retryWithBackoff_events B opts evs w)
         \<le> tally is_Scheduled w + (totalRetry opts - retryCount w)
    \<and> retryCount w \<le> retryCount (retryWithBackoff_events B opts evs w)
    \<and> retryableFuncWithBackoff_events B opts evs w = retryWithBackoff_events B opts evs w
    \<and> retryCount (created t :: ('e, 'v) closure) = 0"
  using events_balance [OF quiet] by (simp add: events_same created_def)

theorem C2_witness:
  "retryWithBackoff_events doubling (policy 2 0)
     [(0, Subscribes), (0, Subscribes), (10, Errors 7), (5, Errors 7),
      (95, TimerFires), (10, Errors 7), (95, TimerFires), (10, Errors 7)] (created 0 :: (nat, nat) closure)
   = \<lparr>retryCount = 4, debounceTimer = None, now = 225,
      effects = [Subscribed, Subscribed, Notified 7 1, Scheduled 100, Notified 7 2,
                 Scheduled 200, Subscribed, Thrown (tagged 7 3), Subscribed,
                 Thrown (tagged 7 4)]\<rparr>
   \<and> tally is_Scheduled (retryWithBackoff_events doubling (policy 2 0)
     [(0, Subscribes), (0, Subscribes), (10, Errors 7), (5, Errors 7),
      (95, TimerFires), (10, Errors 7), (95, TimerFires), (10, Errors 7)] (created 0 :: (nat, nat) closure))
     \<le> totalRetry (policy 2 0)"
proof -
  let ?evs = "[(0, Subscribes), (0, Subscribes), (10, Errors 7), (5, Errors 7),
      (95, TimerFires), (10, Errors 7), (95, TimerFires), (10, Errors 7)]
      :: (nat \<times> (nat, nat) happening) list"
  let ?w = "created 0 :: (nat, nat) closure"
  have run: "retryWithBackoff_events doubling (policy 2 0) ?evs ?w
     = \<lparr>retryCount = 4, debounceTimer = None, now = 225,
        effects = [Subscribed, Subscribed, Notified 7 1, Scheduled 100, Notified 7 2,
                   Scheduled 200, Subscribed, Thrown (tagged 7 3), Subscribed,
                   Thrown (tagged 7 4)]\<rparr>"
    by (simp add: sample_defs step_defs retryWithBackoff_event_def)
  have h: "tally is_CounterReset (retryWithBackoff_events doubling (policy 2 0) ?evs ?w)
      = tally is_CounterReset ?w"
    unfolding run by (simp add: tally_def created_def)
  have c: "tally is_Scheduled ?w = 0" "retryCount ?w = 0"
    by (simp_all add: tally_def created_def)
  have "tally is_Scheduled (retryWithBackoff_events doubling (policy 2 0) ?evs ?w)
         \<le> tally is_Scheduled ?w + (totalRetry (policy 2 0) - retryCount ?w)"
    using C2_one_counter_per_wrapper [OF h] by blast
  then have "tally is_Scheduled (retryWithBackoff_events doubling (policy 2 0) ?evs ?w)
         \<le> totalRetry (policy 2 0)"
    unfolding c by simp
  with run show ?thesis by blast
qed

subsection \<open>The debounced reset among several invocations\<close>

lemma events_append:
  "retryWithBackoff_events B opts (xs @ ys) w
     = retryWithBackoff_events B opts ys (retryWithBackoff_events B opts xs w)"
  by (induction xs arbitrary: w) simp_all










subsection \<open>Unsubscribing while the backoff timer is pending\<close>

lemma caller_events_append:
  "caller_events cb (xs @ ys) m = caller_events cb ys (caller_events cb xs m)"
  by (induction cb xs m rule: caller_events.induct) simp_all

lemma now_fold_elapse: "now (fold elapse ds w) = now w + sum_list ds"
  by (induction ds arbitrary: w) simp_all

lemma tally_fold_elapse:
  "\<not> P CounterReset \<Longrightarrow> tally P (fold elapse ds w) = tally P w"
  by (induction ds arbitrary: w) (simp_all add: tally_elapse)

lemma ticks_before_due:
  assumes "pendingTimer m = Some due" "now (shared m) + sum_list ds < due"
  shows "caller_events cb (map Tick ds) m = m\<lparr>shared := fold elapse ds (shared m)\<rparr>"
  using assms
proof (induction ds arbitrary: m)
  case Nil
  then show ?case by simp
next
  case (Cons d ds)
  have t: "tick cb d m = m\<lparr>shared := elapse d (shared m)\<rparr>"
    using Cons.prems by (simp add: tick_def)
  have "caller_events cb (map Tick ds) (tick cb d m)
      = (tick cb d m)\<lparr>shared := fold elapse ds (shared (tick cb d m))\<rparr>"
    by (rule Cons.IH) (use Cons.prems in \<open>simp_all add: t\<close>)
  then show ?case by (simp add: t)
qed

lemma events_after_cancel:
  assumes "pendingTimer m = None"
  shows "caller_events cb evs m = m\<lparr>shared := fold elapse (ticks evs) (shared m)\<rparr>"
  using assms
  by (induction cb evs m rule: caller_events.induct) (simp_all add: tick_def cancel_def)

lemma cancelled_while_pending:
  assumes "sum_list ds < d"
  shows "caller_events cb (map Tick ds @ Unsubscribe # evs) (schedule d w)
     = \<lparr>pendingTimer = None, shared = fold elapse (ds @ ticks evs) w\<rparr>"
proof -
  have a: "caller_events cb (map Tick ds) (schedule d w)
      = \<lparr>pendingTimer = Some (now w + d), shared = fold elapse ds w\<rparr>"
    using ticks_before_due [of "schedule d w" "now w + d" ds cb] assms
    by (simp add: schedule_def)
  have b: "caller_events cb evs (cancel \<lparr>pendingTimer = Some (now w + d), shared = fold elapse ds w\<rparr>)
      = \<lparr>pendingTimer = None, shared = fold elapse (ticks evs) (fold elapse ds w)\<rparr>"
    using events_after_cancel [of "cancel \<lparr>pendingTimer = Some (now w + d), shared = fold elapse ds w\<rparr>" cb evs]
    by (simp add: cancel_def)
  show ?thesis by (simp add: caller_events_append a b)
qed

lemma fires_when_due:
  assumes "sum_list ds < d" "d \<le> sum_list ds + d'"
  shows "caller_events cb (map Tick ds @ [Tick d']) (schedule d w)
     = \<lparr>pendingTimer = None,
        shared = elapse (sum_list ds + d' - d) (cb (d - sum_list ds) (fold elapse ds w))\<rparr>"
proof -
  have a: "caller_events cb (map Tick ds) (schedule d w)
      = \<lparr>pendingTimer = Some (now w + d), shared = fold elapse ds w\<rparr>"
    using ticks_before_due [of "schedule d w" "now w + d" ds cb] assms
    by (simp add: schedule_def)
  show ?thesis using assms by (simp add: caller_events_append a tick_def now_fold_elapse)
qed

lemma fires_same: "retryableFuncWithBackoff_fires = retryWithBackoff_fires"
  by (intro ext) (simp add: retryableFuncWithBackoff_fires_def retryWithBackoff_fires_def timer_same)

text \<open>
  C9. The \<^verbatim>\<open>catch\<close> handler has returned \<^verbatim>\<open>timer(fuzzedDelay).mergeMap(...)\<close>: a timer of
  \<open>d\<close> milliseconds is pending, with the \<^verbatim>\<open>mergeMap\<close> callback of lines 64-67 or 116-119
  as its callback. If the caller unsubscribes before the \<open>d\<close> milliseconds have passed,
  the pending timer is cancelled and, whatever time passes and whatever the caller does
  afterwards, the callback never runs: the closure only sees time pass. No attempt is
  started (no subscription to the source, no call of \<^verbatim>\<open>doRetry\<close>), no value, completion
  or error reaches the caller, and the debounced function is not called; all that can
  still happen is the reset of the counter by a timeout of \<^verbatim>\<open>debounce\<close> set earlier. Both
  wrappers behave alike. Without the unsubscription the timer fires once the \<open>d\<close>
  milliseconds have passed, and the next attempt starts.
\<close>

theorem C9_unsubscribe_while_waiting:
  assumes pending: "sum_list ds < d"
  shows "caller_events callback (map Tick ds @ Unsubscribe # evs) (schedule d w)
       = \<lparr>pendingTimer = None, shared = fold elapse (ds @ ticks evs) w\<rparr>
    \<and> tally is_Subscribed (shared (caller_events (retryWithBackoff_fires opts)
           (map Tick ds @ Unsubscribe # evs) (schedule d w))) = tally is_Subscribed w
    \<and> tally is_Emitted (shared (caller_events (retryWithBackoff_fires opts)
           (map Tick ds @ Unsubscribe # evs) (schedule d w))) = tally is_Emitted w
    \<and> tally is_Completed (shared (caller_events (retryWithBackoff_fires opts)
           (map Tick ds @ Unsubscribe # evs) (schedule d w))) = tally is_Completed w
    \<and> tally is_Thrown (shared (caller_events (retryWithBackoff_fires opts)
           (map Tick ds @ Unsubscribe # evs) (schedule d w))) = tally is_Thrown w
    \<and> tally is_Touched (shared (caller_events (retryWithBackoff_fires opts)
           (map Tick ds @ Unsubscribe # evs) (schedule d w))) = tally is_Touched w
    \<and> caller_events (retryableFuncWithBackoff_fires opts)
           (map Tick ds @ Unsubscribe # evs) (schedule d w)
       = caller_events (retryWithBackoff_fires opts)
           (map Tick ds @ Unsubscribe # evs) (schedule d w)
    \<and> (d \<le> sum_list ds + late \<longrightarrow>
         tally is_Subscribed (shared (caller_events (retryWithBackoff_fires opts)
           (map Tick ds @ [Tick late]) (schedule d w))) = tally is_Subscribed w + 1)"
proof -
  have gone: "caller_events cb (map Tick ds @ Unsubscribe # evs) (schedule d w)
       = \<lparr>pendingTimer = None, shared = fold elapse (ds @ ticks evs) w\<rparr>" for cb
    using pending by (rule cancelled_while_pending)
  have fired: "tally is_Subscribed (shared (caller_events (retryWithBackoff_fires opts)
           (map Tick ds @ [Tick late]) (schedule d w))) = tally is_Subscribed w + 1"
    if "d \<le> sum_list ds + late"
  proof -
    have "tally is_Subscribed (retryWithBackoff_fires opts (d - sum_list ds) (fold elapse ds w))
        = tally is_Subscribed w + 1"
      using tally_timer [of is_Subscribed opts "d - sum_list ds" "fold elapse ds w"]
        tally_fold_elapse [of is_Subscribed ds w]
      by (simp add: retryWithBackoff_fires_def) (simp add: tally_def emit_def)
    then show ?thesis
      using fires_when_due [OF pending that, of "retryWithBackoff_fires opts" w]
      by (simp add: tally_elapse)
  qed
  show ?thesis
    unfolding gone using fired by (simp add: tally_fold_elapse del: fold_append)
qed

theorem C9_witness:
  "caller_events (retryWithBackoff_fires (policy 2 500))
       [Tick 40, Tick 30, Unsubscribe, Tick 500, Unsubscribe, Tick 1000]
       (schedule 200 (\<lparr>retryCount = 2, debounceTimer = Some 300, now = 10,
                       effects = [Subscribed, Notified 7 2, Scheduled 200]\<rparr> :: (nat, nat) closure))
     = \<lparr>pendingTimer = None,
        shared = \<lparr>retryCount = 0, debounceTimer = None, now = 1580,
                  effects = [Subscribed, Notified 7 2, Scheduled 200, CounterReset]\<rparr>\<rparr>
   \<and> caller_events (retryableFuncWithBackoff_fires (policy 2 500))
       [Tick 40, Tick 30, Unsubscribe, Tick 500, Unsubscribe, Tick 1000]
       (schedule 200 (\<lparr>retryCount = 2, debounceTimer = Some 300, now = 10,
                       effects = [Subscribed, Notified 7 2, Scheduled 200]\<rparr> :: (nat, nat) closure))
     = \<lparr>pendingTimer = None,
        shared = \<lparr>retryCount = 0, debounceTimer = None, now = 1580,
                  effects = [Subscribed, Notified 7 2, Scheduled 200, CounterReset]\<rparr>\<rparr>
   \<and> tally is_Subscribed (shared (caller_events (retryWithBackoff_fires (policy 2 500))
       [Tick 40, Tick 30, Tick 500]
       (schedule 200 (\<lparr>retryCount = 2, debounceTimer = Some 300, now = 10,
                       effects = [Subscribed, Notified 7 2, Scheduled 200]\<rparr> :: (nat, nat) closure)))) = 2"
proof -
  let ?w = "\<lparr>retryCount = 2, debounceTimer = Some 300, now = 10,
             effects = [Subscribed, Notified 7 2, Scheduled 200]\<rparr> :: (nat, nat) closure"
  let ?ds = "[40, 30] :: nat list"
  let ?evs = "[Tick 500, Unsubscribe, Tick 1000]"
  have p: "sum_list ?ds < (200 :: nat)" by simp
  have q: "(200 :: nat) \<le> sum_list ?ds + 500" by simp
  have f: "fold elapse (?ds @ ticks ?evs) ?w
      = \<lparr>retryCount = 0, debounceTimer = None, now = 1580,
         effects = [Subscribed, Notified 7 2, Scheduled 200, CounterReset]\<rparr>"
    by (simp add: elapse_def emit_def)
  have t: "tally is_Subscribed ?w + 1 = 2" by (simp add: tally_def)
  have l: "map Tick ?ds @ Unsubscribe # ?evs
      = [Tick 40, Tick 30, Unsubscribe, Tick 500, Unsubscribe, Tick 1000]"
    "map Tick ?ds @ [Tick 500] = [Tick 40, Tick 30, Tick 500]"
    by simp_all
  note inst = C9_unsubscribe_while_waiting [where ds = ?ds and d = 200 and evs = ?evs and w = ?w
      and opts = "policy 2 500" and late = 500, OF p]
  have a: "caller_events (retryWithBackoff_fires (policy 2 500))
       (map Tick ?ds @ Unsubscribe # ?evs) (schedule 200 ?w)
       = \<lparr>pendingTimer = None, shared = fold elapse (?ds @ ticks ?evs) ?w\<rparr>"
    using inst [where callback = "retryWithBackoff_fires (policy 2 500)"] by blast
  have b: "caller_events (retryableFuncWithBackoff_fires (policy 2 500))
       (map Tick ?ds @ Unsubscribe # ?evs) (schedule 200 ?w)
       = caller_events (retryWithBackoff_fires (policy 2 500))
       (map Tick ?ds @ Unsubscribe # ?evs) (schedule 200 ?w)"
    using inst [where callback = "retryWithBackoff_fires (policy 2 500)"] by blast
  have c: "tally is_Subscribed (shared (caller_events (retryWithBackoff_fires (policy 2 500))
           (map Tick ?ds @ [Tick 500]) (schedule 200 ?w))) = tally is_Subscribed ?w + 1"
    using inst [where callback = "retryWithBackoff_fires (policy 2 500)"] q by blast
  have b2: "caller_events (retryableFuncWithBackoff_fires (policy 2 500))
       (map Tick ?ds @ Unsubscribe # ?evs) (schedule 200 ?w)
       = \<lparr>pendingTimer = None, shared = fold elapse (?ds @ ticks ?evs) ?w\<rparr>"
    using b a by (rule trans)
  show ?thesis
    using a b2 c unfolding f t l by blast
qed

subsection \<open>An invocation alone on its wrapper, as events\<close>

text \<open>
  The run of an invocation from its first attempt to its end is the run of the callbacks
  on the events of that invocation alone, one after the other. What holds of every list
  of events therefore holds of \<open>retryWithBackoff\<close> and \<open>doRetry\<close>; what is proved of
  these two only is about an invocation during which no other invocation of the wrapper
  is under way.
\<close>

lemma elapse_ahead: "ahead w \<Longrightarrow> elapse 0 w = w"
  by (simp add: ahead_def elapse_def split: option.splits)

lemma ahead_elapse: "ahead (elapse d w)"
  by (simp add: ahead_def elapse_def emit_def split: option.splits)

lemma ahead_timer: "ahead (retryWithBackoff_timer opts d w)"
  using ahead_elapse [of d w]
  by (auto simp: ahead_def retryWithBackoff_timer_def debounce_def emit_def Let_def
      split: option.splits)

lemma ahead_effects: "ahead (w\<lparr>effects := xs\<rparr>) = ahead w"
  by (simp add: ahead_def split: option.splits)

lemma values_as_events:
  "ahead w \<Longrightarrow>
   retryWithBackoff_events B opts (map (\<lambda>v. (0, Emits v)) vs) w
     = w\<lparr>effects := effects w @ map Emitted vs\<rparr>"
proof (induction vs arbitrary: w)
  case Nil
  then show ?case by simp
next
  case (Cons v vs)
  have "ahead (emit (Emitted v) w)"
    using Cons.prems by (simp add: emit_def ahead_effects)
  from Cons.IH [OF this] show ?case
    using Cons.prems by (simp add: retryWithBackoff_event_def elapse_ahead emit_def)
qed

lemma attempt_as_events:
  assumes "ahead w"
  shows "retryWithBackoff_events B opts (attempt_events a) (emit Subscribed w)
     = snd (retryWithBackoff_attempt B opts a w)"
proof -
  have a: "ahead (emit Subscribed w)"
    using assms by (simp add: emit_def ahead_effects)
  have v: "retryWithBackoff_events B opts (map (\<lambda>v. (0, Emits v)) (emits a)) (emit Subscribed w)
      = w\<lparr>effects := effects w @ Subscribed # map Emitted (emits a)\<rparr>"
    using values_as_events [OF a, of B opts "emits a"] by (simp add: emit_def)
  show ?thesis
    by (cases "ending a")
      (auto simp: attempt_events_def events_append v retryWithBackoff_event_def
        retryWithBackoff_attempt_def source_runs_def Let_def split: prod.splits caught.splits)
qed

lemma alone_run:
  "ahead w \<Longrightarrow>
   retryWithBackoff_events B opts (alone B opts script w) (emit Subscribed w)
     = snd (retryWithBackoff B opts script w)"
proof (induction script arbitrary: w)
  case Nil
  then show ?case by simp
next
  case (Cons a rest)
  obtain p w1 where att: "retryWithBackoff_attempt B opts a w = (p, w1)"
    by (cases "retryWithBackoff_attempt B opts a w")
  have ev: "retryWithBackoff_events B opts (attempt_events a) (emit Subscribed w) = w1"
    using attempt_as_events [OF Cons.prems, of B opts a] att by simp
  show ?case
  proof (cases p)
    case (Waiting d)
    have "retryWithBackoff_events B opts (alone B opts rest (retryWithBackoff_timer opts d w1))
            (emit Subscribed (retryWithBackoff_timer opts d w1))
        = snd (retryWithBackoff B opts rest (retryWithBackoff_timer opts d w1))"
      by (rule Cons.IH) (rule ahead_timer)
    then show ?thesis
      using att Waiting by (simp add: events_append ev retryWithBackoff_event_def)
  qed (use att in \<open>simp_all add: events_append ev\<close>)
qed

lemma alone_first:
  "retryWithBackoff_events B opts ((0, Subscribes) # alone B opts script (created t)) (created t)
     = snd (retryWithBackoff B opts script (created t))"
  using alone_run [of "created t" B opts script]
  by (simp add: retryWithBackoff_event_def elapse_ahead ahead_def created_def)

end
